theory Spec2Isabelle
  imports Main "HOL-Library.Sublist"
begin

section \<open>Data model\<close>

text \<open>
  The reservation system of \<^verbatim>\<open>main.py\<close> (class \<^verbatim>\<open>CassandraReservationSystem\<close>) talks to
  a Cassandra session. The session is the only state the methods touch, so it is modelled
  as an explicit \<open>world\<close> value that every method takes and returns.

  A user id (\<^verbatim>\<open>uuid.UUID\<close>) and a timestamp (\<^verbatim>\<open>datetime.datetime\<close>) are only stored and
  compared, so both are natural numbers. An exception is identified with its message
  \<^verbatim>\<open>str(e)\<close>, which is all the code looks at.
\<close>

type_synonym uuid = nat
type_synonym datetime = nat
type_synonym exn = string

text \<open>A row of table \<^verbatim>\<open>reservations\<close>, with the columns of \<^verbatim>\<open>reservation_insert_stmt\<close>.\<close>

record reservation =
  movie_name :: string
  user_id :: uuid
  seat :: string
  creation :: datetime
  modification :: datetime

text \<open>
  What one \<^verbatim>\<open>session.execute\<close> call does besides running its statement: it returns
  normally, or it raises an exception with the given message. For a conditional write that
  raises, the flag says whether the write was committed all the same (the caller cannot
  tell: this is the case the driver reports as "CAS operation result is unknown").
\<close>

datatype fault = No_fault | Raises exn bool

text \<open>The statements the methods execute, with their bound parameters.\<close>

datatype stmt =
    Movie_check string
  | User_check_by_id uuid
  | Reservation_insert reservation
  | Reservation_check string string
  | Reservation_delete string string uuid
  | Select_local
  | Select_peers

text \<open>
  What a method does that an observer can see: a statement sent to the session, or
  \<^verbatim>\<open>time.sleep(0.1 * k)\<close>, recorded as \<open>Sleep k\<close>.
\<close>

datatype event = Execute stmt | Sleep nat

text \<open>
  The session: the three tables (table \<^verbatim>\<open>reservations\<close> as the list of its rows, so that
  "one row per key" is a property to be proved of the conditional insert and not a property
  of the representation), the two system tables read by the health check, the outcomes of
  the calls to come (an empty script means that every further call returns normally), and
  the events so far.
\<close>

record world =
  movies :: "string list"
  users :: "uuid list"
  reservations :: "reservation list"
  system_local :: "string list"
  system_peers :: "(string \<times> string) list"
  faults :: "fault list"
  trace :: "event list"

section \<open>The store: statements and \<^verbatim>\<open>session.execute\<close>\<close>

text \<open>The primary key of table \<^verbatim>\<open>reservations\<close>: \<^verbatim>\<open>WHERE movie_name = ? AND seat = ?\<close>.\<close>

definition key :: "reservation \<Rightarrow> string \<times> string" where
  "key r = (movie_name r, seat r)"

text \<open>\<^verbatim>\<open>INSERT INTO reservations (...) VALUES (?, ?, ?, ?, ?) IF NOT EXISTS\<close>:
  the result's \<^verbatim>\<open>was_applied\<close> and the table afterwards.\<close>

definition reservation_insert_stmt ::
    "reservation \<Rightarrow> reservation list \<Rightarrow> bool \<times> reservation list" where
  "reservation_insert_stmt r rs =
     (if key r \<in> set (map key rs) then (False, rs) else (True, rs @ [r]))"

text \<open>\<^verbatim>\<open>SELECT user_id, creation FROM reservations WHERE movie_name = ? AND seat = ?\<close>.\<close>

definition reservation_check_stmt ::
    "string \<Rightarrow> string \<Rightarrow> reservation list \<Rightarrow> (uuid \<times> datetime) list" where
  "reservation_check_stmt m s rs =
     map (\<lambda>r. (user_id r, creation r)) (filter (\<lambda>r. key r = (m, s)) rs)"

text \<open>\<^verbatim>\<open>DELETE FROM reservations WHERE movie_name = ? AND seat = ? IF user_id = ?\<close>:
  not applied when the row is absent or belongs to another user.\<close>

definition reservation_delete_stmt ::
    "string \<Rightarrow> string \<Rightarrow> uuid \<Rightarrow> reservation list \<Rightarrow> bool \<times> reservation list" where
  "reservation_delete_stmt m s u rs =
     (case find (\<lambda>r. key r = (m, s)) rs of
        None \<Rightarrow> (False, rs)
      | Some r \<Rightarrow>
          if user_id r = u then (True, filter (\<lambda>x. key x \<noteq> (m, s)) rs) else (False, rs))"

text \<open>Every \<^verbatim>\<open>session.execute\<close> records its statement and takes the next outcome of the script.\<close>

definition next_fault :: "stmt \<Rightarrow> world \<Rightarrow> fault \<times> world" where
  "next_fault q w =
     (case faults w of
        [] \<Rightarrow> (No_fault, w\<lparr>trace := trace w @ [Execute q]\<rparr>)
      | f # fs \<Rightarrow> (f, w\<lparr>faults := fs, trace := trace w @ [Execute q]\<rparr>))"

definition execute_movie_check :: "string \<Rightarrow> world \<Rightarrow> (exn + string list) \<times> world" where
  "execute_movie_check m w =
     (case next_fault (Movie_check m) w of
        (No_fault, w1) \<Rightarrow> (Inr (filter (\<lambda>n. n = m) (movies w1)), w1)
      | (Raises e c, w1) \<Rightarrow> (Inl e, w1))"

definition execute_user_check_by_id :: "uuid \<Rightarrow> world \<Rightarrow> (exn + uuid list) \<times> world" where
  "execute_user_check_by_id u w =
     (case next_fault (User_check_by_id u) w of
        (No_fault, w1) \<Rightarrow> (Inr (filter (\<lambda>i. i = u) (users w1)), w1)
      | (Raises e c, w1) \<Rightarrow> (Inl e, w1))"

definition execute_reservation_insert :: "reservation \<Rightarrow> world \<Rightarrow> (exn + bool) \<times> world" where
  "execute_reservation_insert r w =
     (case next_fault (Reservation_insert r) w of
        (No_fault, w1) \<Rightarrow>
          (Inr (fst (reservation_insert_stmt r (reservations w1))),
           w1\<lparr>reservations := snd (reservation_insert_stmt r (reservations w1))\<rparr>)
      | (Raises e committed, w1) \<Rightarrow>
          (Inl e,
           if committed
           then w1\<lparr>reservations := snd (reservation_insert_stmt r (reservations w1))\<rparr>
           else w1))"

definition execute_reservation_check ::
    "string \<Rightarrow> string \<Rightarrow> world \<Rightarrow> (exn + (uuid \<times> datetime) list) \<times> world" where
  "execute_reservation_check m s w =
     (case next_fault (Reservation_check m s) w of
        (No_fault, w1) \<Rightarrow> (Inr (reservation_check_stmt m s (reservations w1)), w1)
      | (Raises e c, w1) \<Rightarrow> (Inl e, w1))"

definition execute_reservation_delete ::
    "string \<Rightarrow> string \<Rightarrow> uuid \<Rightarrow> world \<Rightarrow> (exn + bool) \<times> world" where
  "execute_reservation_delete m s u w =
     (case next_fault (Reservation_delete m s u) w of
        (No_fault, w1) \<Rightarrow>
          (Inr (fst (reservation_delete_stmt m s u (reservations w1))),
           w1\<lparr>reservations := snd (reservation_delete_stmt m s u (reservations w1))\<rparr>)
      | (Raises e committed, w1) \<Rightarrow>
          (Inl e,
           if committed
           then w1\<lparr>reservations := snd (reservation_delete_stmt m s u (reservations w1))\<rparr>
           else w1))"

definition execute_select_local :: "world \<Rightarrow> (exn + string list) \<times> world" where
  "execute_select_local w =
     (case next_fault Select_local w of
        (No_fault, w1) \<Rightarrow> (Inr (system_local w1), w1)
      | (Raises e c, w1) \<Rightarrow> (Inl e, w1))"

definition execute_select_peers :: "world \<Rightarrow> (exn + (string \<times> string) list) \<times> world" where
  "execute_select_peers w =
     (case next_fault Select_peers w of
        (No_fault, w1) \<Rightarrow> (Inr (system_peers w1), w1)
      | (Raises e c, w1) \<Rightarrow> (Inl e, w1))"

text \<open>\<^verbatim>\<open>time.sleep(0.1 * k)\<close>.\<close>

definition sleep :: "nat \<Rightarrow> world \<Rightarrow> world" where
  "sleep k w = w\<lparr>trace := trace w @ [Sleep k]\<rparr>"

text \<open>\<^verbatim>\<open>"CAS operation result is unknown" in str(e)\<close>.\<close>

definition cas_unknown :: "exn \<Rightarrow> bool" where
  "cas_unknown e = sublist ''CAS operation result is unknown'' e"

definition max_retries :: nat where
  "max_retries = 5"

section \<open>Existence checks\<close>

text \<open>\<^verbatim>\<open>movie_exists\<close> and \<^verbatim>\<open>user_exists\<close>: \<^verbatim>\<open>bool(result)\<close>, and \<^verbatim>\<open>False\<close> on any exception.\<close>

definition movie_exists :: "string \<Rightarrow> world \<Rightarrow> bool \<times> world" where
  "movie_exists m w =
     (case execute_movie_check m w of
        (Inr result, w1) \<Rightarrow> (result \<noteq> [], w1)
      | (Inl e, w1) \<Rightarrow> (False, w1))"

definition user_exists :: "uuid \<Rightarrow> world \<Rightarrow> bool \<times> world" where
  "user_exists u w =
     (case execute_user_check_by_id u w of
        (Inr result, w1) \<Rightarrow> (result \<noteq> [], w1)
      | (Inl e, w1) \<Rightarrow> (False, w1))"

section \<open>Booking: \<^verbatim>\<open>make_reservation\<close>\<close>

text \<open>
  A method returns \<open>Inr (Some b)\<close> for \<^verbatim>\<open>return b\<close>, \<open>Inr None\<close> when it ends without a
  \<^verbatim>\<open>return\<close> (Python's \<^verbatim>\<open>None\<close>) and \<open>Inl e\<close> when exception \<open>e\<close> leaves it.

  The loop \<^verbatim>\<open>for attempt in range(max_retries)\<close> of \<^verbatim>\<open>make_reservation\<close>, on the values of
  \<^verbatim>\<open>attempt\<close> still to come. Its last line is the \<^verbatim>\<open>return False\<close> after the loop.
\<close>

fun make_reservation_attempts ::
    "nat list \<Rightarrow> reservation \<Rightarrow> world \<Rightarrow> (exn + bool option) \<times> world" where
  "make_reservation_attempts [] r w = (Inr (Some False), w)"
| "make_reservation_attempts (attempt # rest) r w =
     (case execute_reservation_insert r w of
        (Inr was_applied, w1) \<Rightarrow>
          if was_applied then (Inr (Some True), w1) else (Inr (Some False), w1)
      | (Inl e, w1) \<Rightarrow>
          if cas_unknown e \<and> attempt < max_retries - 1
          then make_reservation_attempts rest r (sleep (attempt + 1) w1)
          else (Inl e, w1))"

text \<open>The method. Its outer handler is \<^verbatim>\<open>except Exception as e: pass\<close>, after which the
  method ends without a \<^verbatim>\<open>return\<close>. Parameter \<open>now\<close> is the value of
  \<^verbatim>\<open>datetime.datetime.now()\<close>.\<close>

definition make_reservation ::
    "string \<Rightarrow> uuid \<Rightarrow> string \<Rightarrow> datetime \<Rightarrow> world \<Rightarrow> (exn + bool option) \<times> world" where
  "make_reservation m u s now w =
     (let (movie_found, w1) = movie_exists m w in
      if \<not> movie_found then (Inr (Some False), w1)
      else
        let (user_found, w2) = user_exists u w1 in
        if \<not> user_found then (Inr (Some False), w2)
        else
          (case make_reservation_attempts [0..<max_retries]
                  \<lparr>movie_name = m, user_id = u, seat = s, creation = now, modification = now\<rparr> w2 of
             (Inl e, w3) \<Rightarrow> (Inr None, w3)
           | (Inr v, w3) \<Rightarrow> (Inr v, w3)))"

section \<open>Transfer: \<^verbatim>\<open>update_reservation\<close>\<close>

text \<open>The body of the inner \<^verbatim>\<open>try\<close>: claim the new seat, release the old one, roll the
  claim back when the release is not applied.\<close>

definition update_reservation_step ::
    "string \<Rightarrow> string \<Rightarrow> string \<Rightarrow> uuid \<Rightarrow> datetime \<Rightarrow> datetime \<Rightarrow> world \<Rightarrow> (exn + bool) \<times> world" where
  "update_reservation_step m cur new u original_creation now w =
     (case execute_reservation_insert
             \<lparr>movie_name = m, user_id = u, seat = new,
              creation = original_creation, modification = now\<rparr> w of
        (Inl e, w1) \<Rightarrow> (Inl e, w1)
      | (Inr new_seat_applied, w1) \<Rightarrow>
          if \<not> new_seat_applied then (Inr False, w1)
          else
            (case execute_reservation_delete m cur u w1 of
               (Inl e, w2) \<Rightarrow> (Inl e, w2)
             | (Inr old_seat_applied, w2) \<Rightarrow>
                 if old_seat_applied then (Inr True, w2)
                 else
                   (case execute_reservation_delete m new u w2 of
                      (Inl e, w3) \<Rightarrow> (Inl e, w3)
                    | (Inr rolled_back, w3) \<Rightarrow> (Inr False, w3))))"

text \<open>The loop \<^verbatim>\<open>for attempt in range(max_retries)\<close> of \<^verbatim>\<open>update_reservation\<close>. Nothing
  follows the loop inside the \<^verbatim>\<open>try\<close>, so a loop that ran out would end the method
  without a \<^verbatim>\<open>return\<close>.\<close>

fun update_reservation_attempts ::
    "nat list \<Rightarrow> string \<Rightarrow> string \<Rightarrow> string \<Rightarrow> uuid \<Rightarrow> datetime \<Rightarrow> datetime \<Rightarrow> world
      \<Rightarrow> (exn + bool option) \<times> world" where
  "update_reservation_attempts [] m cur new u original_creation now w = (Inr None, w)"
| "update_reservation_attempts (attempt # rest) m cur new u original_creation now w =
     (case update_reservation_step m cur new u original_creation now w of
        (Inr b, w1) \<Rightarrow> (Inr (Some b), w1)
      | (Inl e, w1) \<Rightarrow>
          if cas_unknown e \<and> attempt < max_retries - 1
          then update_reservation_attempts rest m cur new u original_creation now
                 (sleep (attempt + 1) w1)
          else (Inl e, w1))"

text \<open>The body of the outer \<^verbatim>\<open>try\<close>: read the current reservation (\<^verbatim>\<open>rows.one()\<close> is the
  first row), check its owner, then run the loop.\<close>

definition update_reservation_try ::
    "string \<Rightarrow> string \<Rightarrow> string \<Rightarrow> uuid \<Rightarrow> datetime \<Rightarrow> world \<Rightarrow> (exn + bool option) \<times> world" where
  "update_reservation_try m cur new u now w =
     (case execute_reservation_check m cur w of
        (Inl e, w1) \<Rightarrow> (Inl e, w1)
      | (Inr rows, w1) \<Rightarrow>
          (case rows of
             [] \<Rightarrow> (Inr (Some False), w1)
           | existing_reservation # _ \<Rightarrow>
               if fst existing_reservation \<noteq> u then (Inr (Some False), w1)
               else if new = cur then (Inr (Some True), w1)
               else update_reservation_attempts [0..<max_retries] m cur new u
                      (snd existing_reservation) now w1))"

text \<open>The method. Its outer handler is \<^verbatim>\<open>except Exception as e: return False\<close>.\<close>

definition update_reservation ::
    "string \<Rightarrow> string \<Rightarrow> string \<Rightarrow> uuid \<Rightarrow> datetime \<Rightarrow> world \<Rightarrow> (exn + bool option) \<times> world" where
  "update_reservation m cur new u now w =
     (let (movie_found, w1) = movie_exists m w in
      if \<not> movie_found then (Inr (Some False), w1)
      else
        let (user_found, w2) = user_exists u w1 in
        if \<not> user_found then (Inr (Some False), w2)
        else
          (case update_reservation_try m cur new u now w2 of
             (Inl e, w3) \<Rightarrow> (Inr (Some False), w3)
           | (Inr v, w3) \<Rightarrow> (Inr v, w3)))"

section \<open>Health check: \<^verbatim>\<open>check_cluster_health\<close>\<close>

text \<open>The body of the \<^verbatim>\<open>try\<close>: both system tables are read, the peers are counted.\<close>

definition check_cluster_health_try :: "world \<Rightarrow> (exn + bool) \<times> world" where
  "check_cluster_health_try w =
     (case execute_select_local w of
        (Inl e, w1) \<Rightarrow> (Inl e, w1)
      | (Inr local_data, w1) \<Rightarrow>
          (case execute_select_peers w1 of
             (Inl e, w2) \<Rightarrow> (Inl e, w2)
           | (Inr active_peers, w2) \<Rightarrow>
               (let total_nodes = length active_peers + 1
                in if total_nodes \<ge> 2 then (Inr True, w2) else (Inr False, w2))))"

text \<open>The method. Its handler is \<^verbatim>\<open>except Exception as e: ... return False\<close>.\<close>

definition check_cluster_health :: "world \<Rightarrow> (exn + bool) \<times> world" where
  "check_cluster_health w =
     (case check_cluster_health_try w of
        (Inl e, w1) \<Rightarrow> (Inr False, w1)
      | (Inr healthy, w1) \<Rightarrow> (Inr healthy, w1))"

section \<open>Sequences of operations\<close>

text \<open>
  A client of the stress tests (\<^verbatim>\<open>client_worker\<close>) issues a sequence of operations, each a
  \<^verbatim>\<open>make_reservation\<close> ("reserve") or an \<^verbatim>\<open>update_reservation\<close> ("update"), and looks at
  each result.
\<close>

datatype operation =
    Reserve string uuid string datetime
  | Update string string string uuid datetime

fun perform :: "operation \<Rightarrow> world \<Rightarrow> (exn + bool option) \<times> world" where
  "perform (Reserve m u s now) w = make_reservation m u s now w"
| "perform (Update m cur new u now) w = update_reservation m cur new u now w"

fun client_worker :: "operation list \<Rightarrow> world \<Rightarrow> (exn + bool option) list \<times> world" where
  "client_worker [] w = ([], w)"
| "client_worker (c # cs) w =
     (let (r, w1) = perform c w; (rs, w2) = client_worker cs w1 in (r # rs, w2))"

section \<open>Concurrent callers\<close>

text \<open>
  The stress tests run many \<^verbatim>\<open>make_reservation\<close> calls at once in a thread pool
  (\<^verbatim>\<open>stress_test_1_same_request_rapid\<close>, \<^verbatim>\<open>stress_test_3_seat_race_condition\<close>). The calls
  share the session, and what interleaves are their \<^verbatim>\<open>session.execute\<close> calls, each of which
  the store runs as one step. So \<^verbatim>\<open>make_reservation\<close> is cut at its \<^verbatim>\<open>session.execute\<close>
  calls: a caller is about to read the movie, about to read the user, about to send the
  insert of one of the attempts still to come, or has returned.
\<close>

datatype booking =
    At_movie_check
  | At_user_check
  | At_insert "nat list"
  | Returned "exn + bool option"

text \<open>One step of one caller: the code of \<^verbatim>\<open>make_reservation\<close> from one
  \<^verbatim>\<open>session.execute\<close> up to the next. The exception that the outer handler swallows ends
  the method without a value.\<close>

fun make_reservation_next ::
    "string \<Rightarrow> uuid \<Rightarrow> string \<Rightarrow> datetime \<Rightarrow> booking \<Rightarrow> world \<Rightarrow> booking \<times> world" where
  "make_reservation_next m u s now At_movie_check w =
     (let (movie_found, w1) = movie_exists m w in
      if \<not> movie_found then (Returned (Inr (Some False)), w1) else (At_user_check, w1))"
| "make_reservation_next m u s now At_user_check w =
     (let (user_found, w1) = user_exists u w in
      if \<not> user_found then (Returned (Inr (Some False)), w1)
      else (At_insert [0..<max_retries], w1))"
| "make_reservation_next m u s now (At_insert []) w = (Returned (Inr (Some False)), w)"
| "make_reservation_next m u s now (At_insert (attempt # rest)) w =
     (case execute_reservation_insert
             \<lparr>movie_name = m, user_id = u, seat = s, creation = now, modification = now\<rparr> w of
        (Inr was_applied, w1) \<Rightarrow>
          if was_applied then (Returned (Inr (Some True)), w1)
          else (Returned (Inr (Some False)), w1)
      | (Inl e, w1) \<Rightarrow>
          if cas_unknown e \<and> attempt < max_retries - 1
          then (At_insert rest, sleep (attempt + 1) w1)
          else (Returned (Inr None), w1))"
| "make_reservation_next m u s now (Returned r) w = (Returned r, w)"

text \<open>A caller that runs alone, for the given number of steps.\<close>

fun make_reservation_run ::
    "nat \<Rightarrow> string \<Rightarrow> uuid \<Rightarrow> string \<Rightarrow> datetime \<Rightarrow> booking \<Rightarrow> world \<Rightarrow> booking \<times> world" where
  "make_reservation_run 0 m u s now b w = (b, w)"
| "make_reservation_run (Suc n) m u s now b w =
     (let (b1, w1) = make_reservation_next m u s now b w in make_reservation_run n m u s now b1 w1)"

text \<open>A submitted call with its arguments and how far it got; a schedule names, step by
  step, the caller that moves next.\<close>

record request =
  request_movie :: string
  request_user :: uuid
  request_seat :: string
  request_now :: datetime
  progress :: booking

definition pool_step :: "nat \<Rightarrow> request list \<Rightarrow> world \<Rightarrow> request list \<times> world" where
  "pool_step i pool w =
     (if i < length pool
      then let q = pool ! i;
               (b, w1) = make_reservation_next (request_movie q) (request_user q)
                           (request_seat q) (request_now q) (progress q) w
           in (pool[i := q\<lparr>progress := b\<rparr>], w1)
      else (pool, w))"

fun run_pool :: "nat list \<Rightarrow> request list \<Rightarrow> world \<Rightarrow> request list \<times> world" where
  "run_pool [] pool w = (pool, w)"
| "run_pool (i # schedule) pool w =
     (let (pool1, w1) = pool_step i pool w in run_pool schedule pool1 w1)"


section \<open>Vocabulary of the properties\<close>

text \<open>The outcome that the \<open>i\<close>-th \<^verbatim>\<open>session.execute\<close> from now on will meet.\<close>

definition outcome :: "nat \<Rightarrow> world \<Rightarrow> fault" where
  "outcome i w = (case drop i (faults w) of [] \<Rightarrow> No_fault | f # _ \<Rightarrow> f)"

text \<open>The session after one statement was sent: one outcome used, one event more.\<close>

definition sent :: "stmt \<Rightarrow> world \<Rightarrow> world" where
  "sent q w = w\<lparr>faults := tl (faults w), trace := trace w @ [Execute q]\<rparr>"

fun raises :: "fault \<Rightarrow> bool" where
  "raises No_fault = False"
| "raises (Raises e c) = True"

text \<open>An ambiguous outcome: the call raises and the handlers of the two retry loops
  recognise the message.\<close>

fun ambiguous :: "fault \<Rightarrow> bool" where
  "ambiguous No_fault = False"
| "ambiguous (Raises e c) = cas_unknown e"

text \<open>The write of a call that raised was committed all the same.\<close>

fun committed :: "fault \<Rightarrow> bool" where
  "committed No_fault = False"
| "committed (Raises e c) = c"

text \<open>A conditional delete sent to the session.\<close>

fun is_delete :: "event \<Rightarrow> bool" where
  "is_delete (Execute (Reservation_delete m s u)) = True"
| "is_delete e = False"

text \<open>An operation that moves a reservation away from seat \<open>s\<close> of movie \<open>m\<close>.\<close>

fun releases :: "string \<Rightarrow> string \<Rightarrow> operation \<Rightarrow> bool" where
  "releases m s (Update m' cur new u now) = (m' = m \<and> cur = s)"
| "releases m s (Reserve m' u s' now) = False"

text \<open>An operation paired with its result: a booking of seat \<open>s\<close> of movie \<open>m\<close> that
  returned \<^verbatim>\<open>True\<close>.\<close>

fun booked_by :: "string \<Rightarrow> string \<Rightarrow> operation \<times> (exn + bool option) \<Rightarrow> bool" where
  "booked_by m s (Reserve m' u s' now, r) = (m' = m \<and> s' = s \<and> r = Inr (Some True))"
| "booked_by m s (Update m' cur new u now, r) = False"

text \<open>A caller that has returned \<^verbatim>\<open>True\<close>.\<close>

definition succeeded :: "request \<Rightarrow> bool" where
  "succeeded q = (progress q = Returned (Inr (Some True)))"

text \<open>What stays true while callers race for seat \<open>s\<close> of movie \<open>m\<close>: at most one has
  returned \<^verbatim>\<open>True\<close>, and then the key is taken.\<close>

definition one_winner :: "string \<Rightarrow> string \<Rightarrow> request list \<Rightarrow> world \<Rightarrow> bool" where
  "one_winner m s pool w =
     (length (filter succeeded pool) \<le> 1 \<and>
      (filter succeeded pool \<noteq> [] \<longrightarrow> (m, s) \<in> set (map key (reservations w))))"

text \<open>A small session to evaluate the methods on: one movie, two users, no reservation,
  one peer, and no failure to come. In \<open>booked\<close>, user 1 holds seat A1.\<close>

definition cinema :: world where
  "cinema =
     \<lparr>movies = [''Dune''], users = [1, 2], reservations = [],
      system_local = [''local''], system_peers = [(''10.0.0.2'', ''10.0.0.2'')],
      faults = [], trace = []\<rparr>"

definition booked :: world where
  "booked = cinema\<lparr>reservations :=
     [\<lparr>movie_name = ''Dune'', user_id = 1, seat = ''A1'', creation = 10, modification = 10\<rparr>]\<rparr>"

text \<open>A message as the driver words it for a conditional write whose outcome is unknown.\<close>

definition cas_timeout :: exn where
  "cas_timeout = ''CAS operation result is unknown - proposal accepted by 1 but not a quorum.''"

text \<open>Four operations of one client, and two callers racing for one seat.\<close>

definition rush :: "operation list" where
  "rush = [Reserve ''Dune'' 1 ''A1'' 10, Reserve ''Dune'' 2 ''A1'' 11,
           Reserve ''Dune'' 2 ''B2'' 12, Update ''Dune'' ''B2'' ''C3'' 2 13]"

definition contest :: "request list" where
  "contest =
     [\<lparr>request_movie = ''Dune'', request_user = 1, request_seat = ''A1'', request_now = 10,
       progress = At_movie_check\<rparr>,
      \<lparr>request_movie = ''Dune'', request_user = 2, request_seat = ''A1'', request_now = 11,
       progress = At_movie_check\<rparr>]"


section \<open>Facts about the store\<close>

lemma next_fault_eq: "next_fault q w = (outcome 0 w, sent q w)"
  by (cases w) (auto simp: next_fault_def outcome_def sent_def split: list.splits)

lemma sent_simps [simp]:
  "movies (sent q w) = movies w"
  "users (sent q w) = users w"
  "reservations (sent q w) = reservations w"
  "system_local (sent q w) = system_local w"
  "system_peers (sent q w) = system_peers w"
  "faults (sent q w) = tl (faults w)"
  "trace (sent q w) = trace w @ [Execute q]"
  by (simp_all add: sent_def)

lemma outcome_sent [simp]: "outcome i (sent q w) = outcome (Suc i) w"
  by (simp add: outcome_def sent_def drop_Suc drop_tl)

lemma sleep_simps [simp]:
  "movies (sleep k w) = movies w"
  "users (sleep k w) = users w"
  "reservations (sleep k w) = reservations w"
  "faults (sleep k w) = faults w"
  "trace (sleep k w) = trace w @ [Sleep k]"
  "outcome i (sleep k w) = outcome i w"
  by (simp_all add: sleep_def outcome_def)

lemma outcome_tables [simp]:
  "outcome i (w\<lparr>reservations := rs\<rparr>) = outcome i w"
  "outcome i (w\<lparr>movies := ms\<rparr>) = outcome i w"
  "outcome i (w\<lparr>users := us\<rparr>) = outcome i w"
  by (simp_all add: outcome_def)

lemma key_row [simp]:
  "key \<lparr>movie_name = m, user_id = u, seat = s, creation = c, modification = t\<rparr> = (m, s)"
  by (simp add: key_def)

lemma insert_stmt_fst [simp]:
  "fst (reservation_insert_stmt r rs) = (key r \<notin> set (map key rs))"
  by (simp add: reservation_insert_stmt_def)

lemma insert_stmt_snd:
  "snd (reservation_insert_stmt r rs) = (if key r \<in> set (map key rs) then rs else rs @ [r])"
  by (simp add: reservation_insert_stmt_def)

lemma delete_stmt_fst:
  "fst (reservation_delete_stmt m s u rs) =
     (\<exists>r. find (\<lambda>r. key r = (m, s)) rs = Some r \<and> user_id r = u)"
  by (simp add: reservation_delete_stmt_def split: option.splits)

lemma delete_stmt_snd:
  "snd (reservation_delete_stmt m s u rs) =
     (if fst (reservation_delete_stmt m s u rs) then filter (\<lambda>x. key x \<noteq> (m, s)) rs else rs)"
  by (simp add: reservation_delete_stmt_def split: option.splits)

lemma filter_other_keys: "k \<notin> set (map key rs) \<Longrightarrow> filter (\<lambda>x. key x \<noteq> k) rs = rs"
  by (induction rs) auto

lemma filter_Cons_find: "filter P xs = y # ys \<Longrightarrow> find P xs = Some y"
  by (induction xs) (auto split: if_splits)

lemma movie_exists_eq:
  "movie_exists m w = (outcome 0 w = No_fault \<and> m \<in> set (movies w), sent (Movie_check m) w)"
  by (auto simp: movie_exists_def execute_movie_check_def next_fault_eq filter_empty_conv
      split: fault.splits)

lemma user_exists_eq:
  "user_exists u w = (outcome 0 w = No_fault \<and> u \<in> set (users w), sent (User_check_by_id u) w)"
  by (auto simp: user_exists_def execute_user_check_by_id_def next_fault_eq filter_empty_conv
      split: fault.splits)

lemma execute_reservation_insert_eq:
  "execute_reservation_insert r w =
     (case outcome 0 w of
        No_fault \<Rightarrow>
          (Inr (key r \<notin> set (map key (reservations w))),
           (sent (Reservation_insert r) w)
             \<lparr>reservations := snd (reservation_insert_stmt r (reservations w))\<rparr>)
      | Raises e c \<Rightarrow>
          (Inl e,
           if c
           then (sent (Reservation_insert r) w)
                  \<lparr>reservations := snd (reservation_insert_stmt r (reservations w))\<rparr>
           else sent (Reservation_insert r) w))"
  by (simp add: execute_reservation_insert_def next_fault_eq split: fault.splits)

lemma execute_reservation_delete_eq:
  "execute_reservation_delete m s u w =
     (case outcome 0 w of
        No_fault \<Rightarrow>
          (Inr (fst (reservation_delete_stmt m s u (reservations w))),
           (sent (Reservation_delete m s u) w)
             \<lparr>reservations := snd (reservation_delete_stmt m s u (reservations w))\<rparr>)
      | Raises e c \<Rightarrow>
          (Inl e,
           if c
           then (sent (Reservation_delete m s u) w)
                  \<lparr>reservations := snd (reservation_delete_stmt m s u (reservations w))\<rparr>
           else sent (Reservation_delete m s u) w))"
  by (simp add: execute_reservation_delete_def next_fault_eq split: fault.splits)

lemma execute_reservation_check_eq:
  "execute_reservation_check m s w =
     (case outcome 0 w of
        No_fault \<Rightarrow>
          (Inr (reservation_check_stmt m s (reservations w)), sent (Reservation_check m s) w)
      | Raises e c \<Rightarrow> (Inl e, sent (Reservation_check m s) w))"
  by (simp add: execute_reservation_check_def next_fault_eq split: fault.splits)

lemma execute_select_local_eq:
  "execute_select_local w =
     (case outcome 0 w of
        No_fault \<Rightarrow> (Inr (system_local w), sent Select_local w)
      | Raises e c \<Rightarrow> (Inl e, sent Select_local w))"
  by (simp add: execute_select_local_def next_fault_eq split: fault.splits)

lemma execute_select_peers_eq:
  "execute_select_peers w =
     (case outcome 0 w of
        No_fault \<Rightarrow> (Inr (system_peers w), sent Select_peers w)
      | Raises e c \<Rightarrow> (Inl e, sent Select_peers w))"
  by (simp add: execute_select_peers_def next_fault_eq split: fault.splits)


lemma cas_unknown_cas_timeout [simp]: "cas_unknown cas_timeout"
  by (simp add: cas_unknown_def cas_timeout_def)

lemma not_cas_unknown_Unavailable [simp]: "\<not> cas_unknown ''Unavailable''"
  by (simp add: cas_unknown_def sublist_Cons_right)

lemmas run_simps =
  make_reservation_def update_reservation_def update_reservation_try_def
  update_reservation_step_def movie_exists_eq user_exists_eq
  execute_reservation_insert_eq execute_reservation_delete_eq execute_reservation_check_eq
  reservation_insert_stmt_def reservation_delete_stmt_def reservation_check_stmt_def
  max_retries_def outcome_def cinema_def booked_def upt_conv_Cons

section \<open>Facts about \<^verbatim>\<open>make_reservation\<close>\<close>

text \<open>A booking that returns \<^verbatim>\<open>True\<close> found the key free and added exactly its row, in the
  last statement it sent.\<close>

lemma make_reservation_attempts_True:
  "make_reservation_attempts as r w = (Inr (Some True), w') \<Longrightarrow>
     key r \<notin> set (map key (reservations w)) \<and> reservations w' = reservations w @ [r] \<and>
     last (trace w') = Execute (Reservation_insert r)"
proof (induction as arbitrary: w)
  case Nil
  then show ?case by simp
next
  case (Cons a as)
  show ?case
  proof (cases "outcome 0 w")
    case No_fault
    with Cons.prems show ?thesis
      by (auto simp: execute_reservation_insert_eq insert_stmt_snd split: if_splits)
  next
    case (Raises e c)
    let ?w1 = "snd (execute_reservation_insert r w)"
    from Raises Cons.prems
    have again: "make_reservation_attempts as r (sleep (a + 1) ?w1) = (Inr (Some True), w')"
      by (auto simp: execute_reservation_insert_eq split: if_splits)
    from Cons.IH[OF again] have free: "key r \<notin> set (map key (reservations ?w1))"
      and final: "reservations w' = reservations ?w1 @ [r]"
      and sent_last: "last (trace w') = Execute (Reservation_insert r)"
      by simp_all
    from free Raises have "reservations ?w1 = reservations w"
      by (auto simp: execute_reservation_insert_eq insert_stmt_snd split: if_splits)
    with free final sent_last show ?thesis by simp
  qed
qed

lemma make_reservation_True:
  assumes "make_reservation m u s now w = (Inr (Some True), w')"
  shows "(m, s) \<notin> set (map key (reservations w)) \<and>
         reservations w' =
           reservations w @
             [\<lparr>movie_name = m, user_id = u, seat = s, creation = now, modification = now\<rparr>] \<and>
         last (trace w') =
           Execute (Reservation_insert
             \<lparr>movie_name = m, user_id = u, seat = s, creation = now, modification = now\<rparr>)"
proof -
  let ?w2 = "sent (User_check_by_id u) (sent (Movie_check m) w)"
  let ?r = "\<lparr>movie_name = m, user_id = u, seat = s, creation = now, modification = now\<rparr>"
  from assms have "make_reservation_attempts [0..<max_retries] ?r ?w2 = (Inr (Some True), w')"
    by (auto simp: make_reservation_def movie_exists_eq user_exists_eq
        split: if_splits prod.splits sum.splits)
  from make_reservation_attempts_True[OF this] show ?thesis by simp
qed

lemma make_reservation_Inr: "\<exists>v. fst (make_reservation m u s now w) = Inr v"
  by (auto simp: make_reservation_def Let_def split: prod.splits sum.splits)

lemma update_reservation_Inr: "\<exists>v. fst (update_reservation m cur new u now w) = Inr v"
  by (auto simp: update_reservation_def Let_def split: prod.splits sum.splits)

text \<open>The retry loop, from attempt \<open>a\<close> on, when the next \<open>n\<close> outcomes are ambiguous.\<close>

lemma all_less_Suc_shift: "(\<forall>i<Suc n. P i) = (P 0 \<and> (\<forall>i<n. P (Suc i)))"
  by (metis less_Suc_eq_0_disj Suc_less_eq zero_less_Suc)

lemma make_reservation_attempts_retry:
  assumes "a < 5" and "a + n \<le> 5"
    and "\<forall>i<n. ambiguous (outcome i w)"
    and "a + n < 5 \<longrightarrow> \<not> ambiguous (outcome n w)"
  shows "trace (snd (make_reservation_attempts [a..<5] r w)) =
           trace w @
           concat (map (\<lambda>k. [Execute (Reservation_insert r), Sleep k])
                     [Suc a..<Suc (a + min n (4 - a))]) @
           [Execute (Reservation_insert r)] \<and>
         (a + n = 5 \<or> raises (outcome n w) \<longrightarrow> isl (fst (make_reservation_attempts [a..<5] r w))) \<and>
         (a + n < 5 \<and> outcome n w = No_fault \<longrightarrow>
            fst (make_reservation_attempts [a..<5] r w) =
              Inr (Some (key r \<notin> set (map key (reservations w)) \<and>
                         (\<forall>i<n. \<not> committed (outcome i w)))))"
  using assms
proof (induction n arbitrary: a w)
  case 0
  then show ?case
    by (cases "outcome 0 w")
       (simp_all add: upt_conv_Cons execute_reservation_insert_eq max_retries_def)
next
  case (Suc n)
  from Suc.prems(3) have amb: "ambiguous (outcome 0 w)" by simp
  then obtain e c where first: "outcome 0 w = Raises e c" and unknown: "cas_unknown e"
    by (cases "outcome 0 w") simp_all
  show ?case
  proof (cases "a < 4")
    case False
    with Suc.prems have "a = 4" "n = 0" by simp_all
    with first show ?thesis
      by (simp add: upt_conv_Cons execute_reservation_insert_eq max_retries_def)
  next
    case True
    let ?w1 = "sleep (a + 1) (snd (execute_reservation_insert r w))"
    have out0: "\<And>i. outcome i (snd (execute_reservation_insert r w)) = outcome (Suc i) w"
      using first by (simp add: execute_reservation_insert_eq)
    have out: "\<And>i. outcome i ?w1 = outcome (Suc i) w"
      by (simp add: out0)
    have tr: "trace ?w1 = trace w @ [Execute (Reservation_insert r), Sleep (Suc a)]"
      using first by (simp add: execute_reservation_insert_eq)
    have tab: "key r \<notin> set (map key (reservations ?w1)) \<longleftrightarrow>
                 key r \<notin> set (map key (reservations w)) \<and> \<not> c"
      using first by (auto simp: execute_reservation_insert_eq insert_stmt_snd)
    have unfold: "make_reservation_attempts [a..<5] r w = make_reservation_attempts [Suc a..<5] r ?w1"
      using True first unknown
      by (simp add: upt_conv_Cons execute_reservation_insert_eq max_retries_def)
    have IH: "trace (snd (make_reservation_attempts [Suc a..<5] r ?w1)) =
           trace ?w1 @
           concat (map (\<lambda>k. [Execute (Reservation_insert r), Sleep k])
                     [Suc (Suc a)..<Suc (Suc a + min n (4 - Suc a))]) @
           [Execute (Reservation_insert r)] \<and>
         (Suc a + n = 5 \<or> raises (outcome n ?w1) \<longrightarrow> isl (fst (make_reservation_attempts [Suc a..<5] r ?w1))) \<and>
         (Suc a + n < 5 \<and> outcome n ?w1 = No_fault \<longrightarrow>
            fst (make_reservation_attempts [Suc a..<5] r ?w1) =
              Inr (Some (key r \<notin> set (map key (reservations ?w1)) \<and>
                         (\<forall>i<n. \<not> committed (outcome i ?w1)))))"
      using Suc.prems True by (intro Suc.IH) (simp_all add: out0)
    have range: "[Suc a..<Suc (a + min (Suc n) (4 - a))] =
                   Suc a # [Suc (Suc a)..<Suc (Suc a + min n (4 - Suc a))]"
    proof -
      have "min (Suc n) (4 - a) = Suc (min n (4 - Suc a))" using True by arith
      then have "Suc (a + min (Suc n) (4 - a)) = Suc (Suc a + min n (4 - Suc a))" by simp
      moreover have "Suc a < Suc (Suc a + min n (4 - Suc a))" by simp
      ultimately show ?thesis by (simp only: upt_conv_Cons)
    qed
    have flags: "(\<forall>i<Suc n. \<not> committed (outcome i w)) = (\<not> c \<and> (\<forall>i<n. \<not> committed (outcome (Suc i) w)))"
      using first by (simp add: all_less_Suc_shift)
    from IH show ?thesis
      unfolding unfold range flags tr out tab by auto
  qed
qed

section \<open>Facts about \<^verbatim>\<open>update_reservation\<close>\<close>

text \<open>A transfer that returns \<^verbatim>\<open>True\<close> for two different seats found the new key free,
  added its row and removed the old key. An attempt that raised either left the new key
  taken, so that no later attempt succeeds, or left the table as it was.\<close>

lemma find_fresh_row:
  "key r \<notin> set (map key rs) \<Longrightarrow> find (\<lambda>x. key x = key r) (rs @ [r]) = Some r"
  by (induction rs) auto

lemma find_key: "find (\<lambda>r. key r = k) rs = Some r \<Longrightarrow> key r = k"
  by (induction rs) (auto split: if_splits)

lemma update_reservation_step_True:
  assumes "update_reservation_step m cur new u oc now w = (Inr True, w')"
  shows "(m, new) \<notin> set (map key (reservations w)) \<and>
         reservations w' =
           filter (\<lambda>x. key x \<noteq> (m, cur))
             (reservations w @
               [\<lparr>movie_name = m, user_id = u, seat = new, creation = oc, modification = now\<rparr>])"
  using assms
  by (auto simp: update_reservation_step_def execute_reservation_insert_eq
      execute_reservation_delete_eq insert_stmt_snd delete_stmt_snd
      split: fault.splits if_splits)

lemma update_reservation_step_Inl:
  assumes "update_reservation_step m cur new u oc now w = (Inl e, w1)" and "cur \<noteq> new"
  shows "(m, new) \<in> set (map key (reservations w1)) \<or> reservations w1 = reservations w"
proof (cases "(m, new) \<in> set (map key (reservations w))")
  case True
  with assms show ?thesis
    by (auto simp: update_reservation_step_def execute_reservation_insert_eq
      insert_stmt_snd split: fault.splits if_splits)
next
  case False
  let ?r = "\<lparr>movie_name = m, user_id = u, seat = new, creation = oc, modification = now\<rparr>"
  have rb: "filter (\<lambda>x. key x \<noteq> (m, new)) (reservations w @ [?r]) = reservations w"
    using False by (simp add: filter_other_keys)
  from assms False rb show ?thesis
    by (auto simp: update_reservation_step_def execute_reservation_insert_eq
        execute_reservation_delete_eq insert_stmt_snd delete_stmt_snd
        split: fault.splits if_splits)
qed

lemma update_reservation_attempts_True:
  "update_reservation_attempts as m cur new u oc now w = (Inr (Some True), w') \<Longrightarrow> cur \<noteq> new \<Longrightarrow>
     (m, new) \<notin> set (map key (reservations w)) \<and>
     reservations w' =
       filter (\<lambda>x. key x \<noteq> (m, cur))
         (reservations w @
           [\<lparr>movie_name = m, user_id = u, seat = new, creation = oc, modification = now\<rparr>])"
proof (induction as arbitrary: w)
  case Nil
  then show ?case by simp
next
  case (Cons a as)
  obtain res w1 where step: "update_reservation_step m cur new u oc now w = (res, w1)"
    by (cases "update_reservation_step m cur new u oc now w")
  show ?case
  proof (cases res)
    case (Inr b)
    with Cons.prems step have "update_reservation_step m cur new u oc now w = (Inr True, w')"
      by auto
    then show ?thesis by (rule update_reservation_step_True)
  next
    case (Inl e)
    with Cons.prems step
    have again: "update_reservation_attempts as m cur new u oc now (sleep (a + 1) w1) =
                   (Inr (Some True), w')"
      by (auto split: if_splits)
    from Cons.IH[OF again Cons.prems(2)]
    have free: "(m, new) \<notin> set (map key (reservations w1))"
      and final: "reservations w' =
         filter (\<lambda>x. key x \<noteq> (m, cur))
           (reservations w1 @
             [\<lparr>movie_name = m, user_id = u, seat = new, creation = oc, modification = now\<rparr>])"
      by simp_all
    from update_reservation_step_Inl[OF step[unfolded Inl] Cons.prems(2)] free
    have "reservations w1 = reservations w" by blast
    with free final show ?thesis by simp
  qed
qed

lemma update_reservation_True:
  assumes "update_reservation m cur new u now w = (Inr (Some True), w')" and "cur \<noteq> new"
  shows "\<exists>r0. find (\<lambda>r. key r = (m, cur)) (reservations w) = Some r0 \<and> user_id r0 = u \<and>
           (m, new) \<notin> set (map key (reservations w)) \<and>
           reservations w' =
             filter (\<lambda>x. key x \<noteq> (m, cur))
               (reservations w @
                 [\<lparr>movie_name = m, user_id = u, seat = new, creation = creation r0,
                   modification = now\<rparr>])"
proof -
  let ?w2 = "sent (User_check_by_id u) (sent (Movie_check m) w)"
  let ?w3 = "sent (Reservation_check m cur) ?w2"
  from assms have body: "update_reservation_try m cur new u now ?w2 = (Inr (Some True), w')"
    by (auto simp: update_reservation_def movie_exists_eq user_exists_eq
        split: if_splits prod.splits sum.splits)
  then obtain ex rest where rows: "reservation_check_stmt m cur (reservations w) = ex # rest"
    and owner: "fst ex = u"
    and loop: "update_reservation_attempts [0..<max_retries] m cur new u (snd ex) now ?w3 =
                 (Inr (Some True), w')"
    using assms(2)
    by (auto simp: update_reservation_try_def execute_reservation_check_eq
        split: fault.splits list.splits if_splits)
  from rows obtain r0 where r0: "find (\<lambda>r. key r = (m, cur)) (reservations w) = Some r0"
    and ex: "ex = (user_id r0, creation r0)"
    by (cases "filter (\<lambda>r. key r = (m, cur)) (reservations w)")
       (auto simp: reservation_check_stmt_def dest: filter_Cons_find)
  from update_reservation_attempts_True[OF loop assms(2)] r0 ex owner show ?thesis by auto
qed

text \<open>A transfer to a taken seat.\<close>

lemma update_reservation_step_taken:
  assumes "(m, new) \<in> set (map key (reservations w))"
  shows "fst (update_reservation_step m cur new u oc now w) \<noteq> Inr True \<and>
         (outcome 0 w = No_fault \<longrightarrow>
            fst (update_reservation_step m cur new u oc now w) = Inr False) \<and>
         reservations (snd (update_reservation_step m cur new u oc now w)) = reservations w \<and>
         trace (snd (update_reservation_step m cur new u oc now w)) =
           trace w @ [Execute (Reservation_insert
             \<lparr>movie_name = m, user_id = u, seat = new, creation = oc, modification = now\<rparr>)]"
  using assms
  by (auto simp: update_reservation_step_def execute_reservation_insert_eq insert_stmt_snd
      split: fault.splits)

lemma update_reservation_attempts_taken:
  "(m, new) \<in> set (map key (reservations w)) \<Longrightarrow>
     fst (update_reservation_attempts as m cur new u oc now w) \<noteq> Inr (Some True) \<and>
     reservations (snd (update_reservation_attempts as m cur new u oc now w)) = reservations w \<and>
     filter is_delete (trace (snd (update_reservation_attempts as m cur new u oc now w))) =
       filter is_delete (trace w)"
proof (induction as arbitrary: w)
  case Nil
  then show ?case by simp
next
  case (Cons a as)
  obtain res w1 where one: "update_reservation_step m cur new u oc now w = (res, w1)"
    by (cases "update_reservation_step m cur new u oc now w")
  from update_reservation_step_taken[OF Cons.prems, of cur u oc now] one
  have res: "res \<noteq> Inr True" and tab: "reservations w1 = reservations w"
    and tr: "trace w1 = trace w @ [Execute (Reservation_insert
             \<lparr>movie_name = m, user_id = u, seat = new, creation = oc, modification = now\<rparr>)]"
    by simp_all
  have "(m, new) \<in> set (map key (reservations (sleep (a + 1) w1)))"
    using Cons.prems tab by simp
  from Cons.IH[OF this] res tab tr show ?case
    by (auto simp: one split: sum.splits)
qed

lemma update_reservation_attempts_not_None:
  "as \<noteq> [] \<Longrightarrow> \<not> last as < max_retries - 1 \<Longrightarrow>
     fst (update_reservation_attempts as m cur new u oc now w) \<noteq> Inr None"
proof (induction as arbitrary: w)
  case Nil
  then show ?case by simp
next
  case (Cons a as)
  obtain res w1 where one: "update_reservation_step m cur new u oc now w = (res, w1)"
    by (cases "update_reservation_step m cur new u oc now w")
  show ?case
  proof (cases "as = []")
    case True
    with Cons.prems show ?thesis by (simp add: one split: sum.splits)
  next
    case False
    with Cons.prems have "\<not> last as < max_retries - 1" by simp
    from Cons.IH[OF False this] show ?thesis by (simp add: one split: sum.splits)
  qed
qed

section \<open>Properties of the table kept by every operation\<close>

text \<open>Whatever the conditional insert and the conditional delete keep, every method
  keeps: the methods write through these two statements only.\<close>

lemma execute_reservation_insert_keeps:
  assumes "\<And>r rs. P rs \<Longrightarrow> P (snd (reservation_insert_stmt r rs))" and "P (reservations w)"
  shows "P (reservations (snd (execute_reservation_insert r w)))"
  using assms by (simp add: execute_reservation_insert_eq split: fault.splits)

lemma execute_reservation_delete_keeps:
  assumes "\<And>m s u rs. P rs \<Longrightarrow> P (snd (reservation_delete_stmt m s u rs))" and "P (reservations w)"
  shows "P (reservations (snd (execute_reservation_delete m s u w)))"
  using assms by (simp add: execute_reservation_delete_eq split: fault.splits)

lemma make_reservation_attempts_keeps:
  assumes ins: "\<And>r rs. P rs \<Longrightarrow> P (snd (reservation_insert_stmt r rs))"
  shows "P (reservations w) \<Longrightarrow> P (reservations (snd (make_reservation_attempts as r w)))"
proof (induction as arbitrary: w)
  case Nil
  then show ?case by simp
next
  case (Cons a as)
  obtain res w1 where one: "execute_reservation_insert r w = (res, w1)"
    by (cases "execute_reservation_insert r w")
  have kept: "P (reservations w1)"
    using execute_reservation_insert_keeps[of P w r, OF ins Cons.prems] one by simp
  then have "P (reservations (sleep (a + 1) w1))" by simp
  from Cons.IH[OF this] kept show ?case
    by (simp add: one split: sum.splits)
qed

lemma make_reservation_keeps:
  assumes "\<And>r rs. P rs \<Longrightarrow> P (snd (reservation_insert_stmt r rs))" and "P (reservations w)"
  shows "P (reservations (snd (make_reservation m u s now w)))"
proof -
  let ?w2 = "sent (User_check_by_id u) (sent (Movie_check m) w)"
  let ?r = "\<lparr>movie_name = m, user_id = u, seat = s, creation = now, modification = now\<rparr>"
  obtain res w3 where loop: "make_reservation_attempts [0..<max_retries] ?r ?w2 = (res, w3)"
    by (cases "make_reservation_attempts [0..<max_retries] ?r ?w2")
  have "P (reservations ?w2)" using assms(2) by simp
  from make_reservation_attempts_keeps[of P ?w2 "[0..<max_retries]" ?r, OF assms(1) this] loop
  have "P (reservations w3)" by simp
  with assms(2) show ?thesis
    by (simp add: make_reservation_def movie_exists_eq user_exists_eq loop split: sum.splits)
qed

lemma update_reservation_step_keeps:
  assumes ins: "\<And>r rs. P rs \<Longrightarrow> P (snd (reservation_insert_stmt r rs))"
    and del: "\<And>m s u rs. P rs \<Longrightarrow> P (snd (reservation_delete_stmt m s u rs))"
    and start: "P (reservations w)"
  shows "P (reservations (snd (update_reservation_step m cur new u oc now w)))"
proof -
  let ?r = "\<lparr>movie_name = m, user_id = u, seat = new, creation = oc, modification = now\<rparr>"
  obtain r1 w1 where s1: "execute_reservation_insert ?r w = (r1, w1)"
    by (cases "execute_reservation_insert ?r w")
  obtain r2 w2 where s2: "execute_reservation_delete m cur u w1 = (r2, w2)"
    by (cases "execute_reservation_delete m cur u w1")
  obtain r3 w3 where s3: "execute_reservation_delete m new u w2 = (r3, w3)"
    by (cases "execute_reservation_delete m new u w2")
  have p1: "P (reservations w1)"
    using execute_reservation_insert_keeps[of P w ?r, OF ins start] s1 by simp
  have p2: "P (reservations w2)"
    using execute_reservation_delete_keeps[of P w1 m cur u, OF del p1] s2 by simp
  have p3: "P (reservations w3)"
    using execute_reservation_delete_keeps[of P w2 m new u, OF del p2] s3 by simp
  from p1 p2 p3 show ?thesis
    by (simp add: update_reservation_step_def s1 s2 s3 split: sum.splits)
qed

lemma update_reservation_attempts_keeps:
  assumes ins: "\<And>r rs. P rs \<Longrightarrow> P (snd (reservation_insert_stmt r rs))"
    and del: "\<And>m s u rs. P rs \<Longrightarrow> P (snd (reservation_delete_stmt m s u rs))"
  shows "P (reservations w) \<Longrightarrow>
         P (reservations (snd (update_reservation_attempts as m cur new u oc now w)))"
proof (induction as arbitrary: w)
  case Nil
  then show ?case by simp
next
  case (Cons a as)
  obtain res w1 where one: "update_reservation_step m cur new u oc now w = (res, w1)"
    by (cases "update_reservation_step m cur new u oc now w")
  have kept: "P (reservations w1)"
    using update_reservation_step_keeps[of P w m cur new u oc now, OF ins del Cons.prems] one
    by simp
  then have "P (reservations (sleep (a + 1) w1))" by simp
  from Cons.IH[OF this] kept show ?case
    by (simp add: one split: sum.splits)
qed

lemma update_reservation_keeps:
  assumes ins: "\<And>r rs. P rs \<Longrightarrow> P (snd (reservation_insert_stmt r rs))"
    and del: "\<And>m s u rs. P rs \<Longrightarrow> P (snd (reservation_delete_stmt m s u rs))"
    and start: "P (reservations w)"
  shows "P (reservations (snd (update_reservation m cur new u now w)))"
proof -
  let ?w3 = "sent (Reservation_check m cur) (sent (User_check_by_id u) (sent (Movie_check m) w))"
  have loop: "P (reservations w')"
    if "update_reservation_attempts [0..<max_retries] m cur new u oc now ?w3 = (res', w')"
    for oc res' w'
    using update_reservation_attempts_keeps[of P ?w3 "[0..<max_retries]" m cur new u oc now,
        OF ins del] start that
    by simp
  obtain res w4 where body:
    "update_reservation_try m cur new u now (sent (User_check_by_id u) (sent (Movie_check m) w))
       = (res, w4)"
    by (cases "update_reservation_try m cur new u now
                 (sent (User_check_by_id u) (sent (Movie_check m) w))")
  then have "P (reservations w4)"
    using start loop
    by (auto simp: update_reservation_try_def execute_reservation_check_eq
        split: fault.splits list.splits if_splits)
  with start show ?thesis
    by (simp add: update_reservation_def movie_exists_eq user_exists_eq body split: sum.splits)
qed

lemma perform_keeps:
  assumes ins: "\<And>r rs. P rs \<Longrightarrow> P (snd (reservation_insert_stmt r rs))"
    and del: "\<And>m s u rs. P rs \<Longrightarrow> P (snd (reservation_delete_stmt m s u rs))"
    and start: "P (reservations w)"
  shows "P (reservations (snd (perform c w)))"
proof (cases c)
  case (Reserve m u s now)
  then show ?thesis using make_reservation_keeps[of P w, OF ins start] by simp
next
  case (Update m cur new u now)
  then show ?thesis using update_reservation_keeps[of P w, OF ins del start] by simp
qed

lemma client_worker_keeps:
  assumes ins: "\<And>r rs. P rs \<Longrightarrow> P (snd (reservation_insert_stmt r rs))"
    and del: "\<And>m s u rs. P rs \<Longrightarrow> P (snd (reservation_delete_stmt m s u rs))"
  shows "P (reservations w) \<Longrightarrow> P (reservations (snd (client_worker cs w)))"
proof (induction cs arbitrary: w)
  case Nil
  then show ?case by simp
next
  case (Cons c cs)
  obtain r w1 where one: "perform c w = (r, w1)" by (cases "perform c w")
  obtain rs w2 where more: "client_worker cs w1 = (rs, w2)" by (cases "client_worker cs w1")
  have "P (reservations w1)"
    using perform_keeps[of P w c, OF ins del Cons.prems] one by simp
  from Cons.IH[OF this] more show ?case by (simp add: one)
qed

lemma insert_stmt_distinct:
  "distinct (map key rs) \<Longrightarrow> distinct (map key (snd (reservation_insert_stmt r rs)))"
  by (simp add: insert_stmt_snd)

lemma delete_stmt_distinct:
  "distinct (map key rs) \<Longrightarrow> distinct (map key (snd (reservation_delete_stmt m s u rs)))"
  by (simp add: delete_stmt_snd distinct_map_filter)

lemma client_worker_distinct:
  "distinct (map key (reservations w)) \<Longrightarrow>
   distinct (map key (reservations (snd (client_worker cs w))))"
  by (rule client_worker_keeps[of "\<lambda>rs. distinct (map key rs)"])
     (simp_all add: insert_stmt_distinct delete_stmt_distinct)

text \<open>A transfer away from another seat leaves an occupied key occupied: its only delete
  of the new seat follows an insert that was applied, so the key was free.\<close>

lemma delete_stmt_keeps_other_key:
  "k \<in> set (map key rs) \<Longrightarrow> k \<noteq> (m, s) \<Longrightarrow>
     k \<in> set (map key (snd (reservation_delete_stmt m s u rs)))"
  by (auto simp: delete_stmt_snd)

lemma make_reservation_keeps_key:
  "k \<in> set (map key (reservations w)) \<Longrightarrow>
     k \<in> set (map key (reservations (snd (make_reservation m u s now w))))"
  by (rule make_reservation_keeps[of "\<lambda>rs. k \<in> set (map key rs)"])
     (simp_all add: insert_stmt_snd)

lemma update_reservation_step_keeps_key:
  assumes "k \<in> set (map key (reservations w))" and "k \<noteq> (m, cur)"
  shows "k \<in> set (map key (reservations (snd (update_reservation_step m cur new u oc now w))))"
proof (cases "k = (m, new)")
  case True
  with assms(1) show ?thesis
    by (auto simp: update_reservation_step_def execute_reservation_insert_eq insert_stmt_snd
        split: fault.splits)
next
  case False
  let ?P = "\<lambda>rs. k \<in> set (map key rs)"
  let ?r = "\<lparr>movie_name = m, user_id = u, seat = new, creation = oc, modification = now\<rparr>"
  obtain r1 w1 where s1: "execute_reservation_insert ?r w = (r1, w1)"
    by (cases "execute_reservation_insert ?r w")
  obtain r2 w2 where s2: "execute_reservation_delete m cur u w1 = (r2, w2)"
    by (cases "execute_reservation_delete m cur u w1")
  obtain r3 w3 where s3: "execute_reservation_delete m new u w2 = (r3, w3)"
    by (cases "execute_reservation_delete m new u w2")
  have p1: "?P (reservations w1)"
    using execute_reservation_insert_keeps[of ?P w ?r] assms(1) s1
    by (simp add: insert_stmt_snd)
  have p2: "?P (reservations w2)"
    using p1 assms(2) s2 delete_stmt_keeps_other_key[of k "reservations w1" m cur u]
    by (auto simp: execute_reservation_delete_eq split: fault.splits if_splits)
  have p3: "?P (reservations w3)"
    using p2 False s3 delete_stmt_keeps_other_key[of k "reservations w2" m new u]
    by (auto simp: execute_reservation_delete_eq split: fault.splits if_splits)
  from p1 p2 p3 show ?thesis
    by (simp add: update_reservation_step_def s1 s2 s3 split: sum.splits)
qed

lemma update_reservation_attempts_keeps_key:
  "k \<in> set (map key (reservations w)) \<Longrightarrow> k \<noteq> (m, cur) \<Longrightarrow>
     k \<in> set (map key (reservations (snd (update_reservation_attempts as m cur new u oc now w))))"
proof (induction as arbitrary: w)
  case Nil
  then show ?case by simp
next
  case (Cons a as)
  obtain res w1 where one: "update_reservation_step m cur new u oc now w = (res, w1)"
    by (cases "update_reservation_step m cur new u oc now w")
  have kept: "k \<in> set (map key (reservations w1))"
    using update_reservation_step_keeps_key[OF Cons.prems, of new u oc now] one by simp
  then have "k \<in> set (map key (reservations (sleep (a + 1) w1)))" by simp
  from Cons.IH[OF this Cons.prems(2)] kept show ?case
    by (simp add: one split: sum.splits)
qed

lemma update_reservation_keeps_key:
  assumes "k \<in> set (map key (reservations w))" and "k \<noteq> (m, cur)"
  shows "k \<in> set (map key (reservations (snd (update_reservation m cur new u now w))))"
proof -
  let ?w2 = "sent (User_check_by_id u) (sent (Movie_check m) w)"
  let ?w3 = "sent (Reservation_check m cur) ?w2"
  have loop: "k \<in> set (map key (reservations w'))"
    if "update_reservation_attempts [0..<max_retries] m cur new u oc now ?w3 = (res', w')"
    for oc res' w'
    using update_reservation_attempts_keeps_key[of k ?w3 m cur "[0..<max_retries]" new u oc now]
      assms that
    by simp
  obtain res w4 where body: "update_reservation_try m cur new u now ?w2 = (res, w4)"
    by (cases "update_reservation_try m cur new u now ?w2")
  then have "k \<in> set (map key (reservations w4))"
    using assms(1) loop
    by (auto simp: update_reservation_try_def execute_reservation_check_eq
        split: fault.splits list.splits if_splits)
  with assms(1) show ?thesis
    by (simp add: update_reservation_def movie_exists_eq user_exists_eq body split: sum.splits)
qed

lemma perform_keeps_key:
  assumes "(m, s) \<in> set (map key (reservations w))" and "\<not> releases m s c"
  shows "(m, s) \<in> set (map key (reservations (snd (perform c w))))"
proof (cases c)
  case (Reserve m' u s' now)
  then show ?thesis using make_reservation_keeps_key[OF assms(1)] by simp
next
  case (Update m' cur new u now)
  with assms(2) have "(m, s) \<noteq> (m', cur)" by auto
  from update_reservation_keeps_key[OF assms(1) this] Update show ?thesis by simp
qed

lemma perform_Inr: "\<exists>v. fst (perform c w) = Inr v"
  by (cases c)
     (auto simp: make_reservation_def update_reservation_def Let_def
        split: prod.splits sum.splits)

lemma client_worker_Inr: "r \<in> set (fst (client_worker cs w)) \<Longrightarrow> \<exists>v. r = Inr v"
proof (induction cs arbitrary: w)
  case Nil
  then show ?case by simp
next
  case (Cons c cs)
  obtain r1 w1 where one: "perform c w = (r1, w1)" by (cases "perform c w")
  obtain rs w2 where more: "client_worker cs w1 = (rs, w2)" by (cases "client_worker cs w1")
  from Cons.prems one more have "r = r1 \<or> r \<in> set (fst (client_worker cs w1))" by auto
  then show ?case
  proof
    assume "r = r1"
    with perform_Inr[of c w] one show ?thesis by simp
  next
    assume "r \<in> set (fst (client_worker cs w1))"
    then show ?thesis by (rule Cons.IH)
  qed
qed

lemma length_client_worker [simp]: "length (fst (client_worker cs w)) = length cs"
proof (induction cs arbitrary: w)
  case Nil
  then show ?case by simp
next
  case (Cons c cs)
  then show ?case by (simp split: prod.splits) (metis fst_conv)
qed

lemma no_booking_when_taken:
  "(m, s) \<in> set (map key (reservations w)) \<Longrightarrow> \<forall>c\<in>set cs. \<not> releases m s c \<Longrightarrow>
     filter (booked_by m s) (zip cs (fst (client_worker cs w))) = []"
proof (induction cs arbitrary: w)
  case Nil
  then show ?case by simp
next
  case (Cons c cs)
  obtain r w1 where one: "perform c w = (r, w1)" by (cases "perform c w")
  obtain rs w2 where more: "client_worker cs w1 = (rs, w2)" by (cases "client_worker cs w1")
  have taken: "(m, s) \<in> set (map key (reservations w1))"
    using perform_keeps_key[OF Cons.prems(1), of c] Cons.prems(2) one by simp
  have rest: "filter (booked_by m s) (zip cs rs) = []"
    using Cons.IH[OF taken] Cons.prems(2) more by simp
  have "\<not> booked_by m s (c, r)"
  proof (cases c)
    case (Reserve m' u s' now)
    show ?thesis
    proof
      assume "booked_by m s (c, r)"
      with Reserve one have "make_reservation m u s now w = (Inr (Some True), w1)" by simp
      from make_reservation_True[OF this] Cons.prems(1) show False by simp
    qed
  next
    case (Update m' cur new u now)
    then show ?thesis by simp
  qed
  with rest show ?case by (simp add: one more)
qed

lemma at_most_one_booking:
  "\<forall>c\<in>set cs. \<not> releases m s c \<Longrightarrow>
     length (filter (booked_by m s) (zip cs (fst (client_worker cs w)))) \<le> 1"
proof (induction cs arbitrary: w)
  case Nil
  then show ?case by simp
next
  case (Cons c cs)
  obtain r w1 where one: "perform c w = (r, w1)" by (cases "perform c w")
  obtain rs w2 where more: "client_worker cs w1 = (rs, w2)" by (cases "client_worker cs w1")
  show ?case
  proof (cases "booked_by m s (c, r)")
    case False
    with Cons.IH[of w1] Cons.prems more show ?thesis by (simp add: one)
  next
    case True
    then obtain u now where c: "c = Reserve m u s now" and r: "r = Inr (Some True)"
      by (cases c) auto
    from c r one have "make_reservation m u s now w = (Inr (Some True), w1)" by simp
    from make_reservation_True[OF this]
    have "(m, s) \<in> set (map key (reservations w1))" by simp
    from no_booking_when_taken[OF this, of cs] Cons.prems more True show ?thesis
      by (simp add: one)
  qed
qed

section \<open>Facts about concurrent callers\<close>

text \<open>The steps of one caller, run alone, compose to \<^verbatim>\<open>make_reservation\<close>.\<close>

lemma make_reservation_run_Returned [simp]:
  "make_reservation_run n m u s now (Returned r) w = (Returned r, w)"
  by (induction n) simp_all

lemma make_reservation_run_attempts:
  "length as < n \<Longrightarrow>
   make_reservation_run n m u s now (At_insert as) w =
     (Returned (case fst (make_reservation_attempts as
         \<lparr>movie_name = m, user_id = u, seat = s, creation = now, modification = now\<rparr> w) of
        Inl e \<Rightarrow> Inr None | Inr v \<Rightarrow> Inr v),
      snd (make_reservation_attempts as
         \<lparr>movie_name = m, user_id = u, seat = s, creation = now, modification = now\<rparr> w))"
proof (induction as arbitrary: n w)
  case Nil
  then obtain k where "n = Suc k" by (cases n) auto
  then show ?case by simp
next
  case (Cons a as)
  then obtain k where n: "n = Suc k" and k: "length as < k" by (cases n) auto
  let ?r = "\<lparr>movie_name = m, user_id = u, seat = s, creation = now, modification = now\<rparr>"
  obtain res w1 where one: "execute_reservation_insert ?r w = (res, w1)"
    by (cases "execute_reservation_insert ?r w")
  show ?case
    using Cons.IH[OF k, of "sleep (a + 1) w1"]
    by (cases res) (simp_all add: n one)
qed

lemma make_reservation_run_whole:
  "make_reservation_run 8 m u s now At_movie_check w =
     (Returned (fst (make_reservation m u s now w)), snd (make_reservation m u s now w))"
proof -
  let ?w2 = "sent (User_check_by_id u) (sent (Movie_check m) w)"
  have "make_reservation_run 6 m u s now (At_insert [0..<max_retries]) ?w2 =
     (Returned (case fst (make_reservation_attempts [0..<max_retries]
         \<lparr>movie_name = m, user_id = u, seat = s, creation = now, modification = now\<rparr> ?w2) of
        Inl e \<Rightarrow> Inr None | Inr v \<Rightarrow> Inr v),
      snd (make_reservation_attempts [0..<max_retries]
         \<lparr>movie_name = m, user_id = u, seat = s, creation = now, modification = now\<rparr> ?w2))"
    by (rule make_reservation_run_attempts) (simp add: max_retries_def)
  then show ?thesis
    by (simp add: eval_nat_numeral make_reservation_def movie_exists_eq user_exists_eq
        split: prod.splits sum.splits)
qed

lemma make_reservation_next_keeps_key:
  "k \<in> set (map key (reservations w)) \<Longrightarrow>
     k \<in> set (map key (reservations (snd (make_reservation_next m u s now b w))))"
proof (cases b)
  case (At_insert as)
  assume "k \<in> set (map key (reservations w))"
  then show ?thesis using At_insert
    by (cases as)
       (auto simp: execute_reservation_insert_eq insert_stmt_snd split: fault.splits)
qed (simp_all add: movie_exists_eq user_exists_eq)

lemma make_reservation_next_True:
  assumes "make_reservation_next m u s now b w = (Returned (Inr (Some True)), w1)"
    and "b \<noteq> Returned (Inr (Some True))"
  shows "(m, s) \<notin> set (map key (reservations w)) \<and> (m, s) \<in> set (map key (reservations w1))"
proof (cases b)
  case (At_insert as)
  with assms(1) show ?thesis
    by (cases as)
       (auto simp: execute_reservation_insert_eq insert_stmt_snd
          split: fault.splits if_splits)
next
  case (Returned r)
  with assms show ?thesis by simp
qed (use assms in \<open>auto simp: movie_exists_eq user_exists_eq split: if_splits\<close>)

lemma filter_update_length:
  "i < length xs \<Longrightarrow>
     length (filter P (xs[i := x])) + (if P (xs ! i) then 1 else 0) =
     length (filter P xs) + (if P x then 1 else 0)"
proof (induction xs arbitrary: i)
  case Nil
  then show ?case by simp
next
  case (Cons y ys)
  then show ?case by (cases i) auto
qed

lemma pool_step_same_seat:
  "\<forall>q\<in>set pool. request_movie q = m \<and> request_seat q = s \<Longrightarrow>
   \<forall>q\<in>set (fst (pool_step i pool w)). request_movie q = m \<and> request_seat q = s"
  by (auto simp: pool_step_def Let_def split: prod.splits dest!: set_update_subset_insert[THEN subsetD])

lemma pool_step_one_winner:
  assumes same: "\<forall>q\<in>set pool. request_movie q = m \<and> request_seat q = s"
    and inv: "one_winner m s pool w"
  shows "one_winner m s (fst (pool_step i pool w)) (snd (pool_step i pool w))"
proof (cases "i < length pool")
  case False
  with inv show ?thesis by (simp add: pool_step_def)
next
  case True
  let ?q = "pool ! i"
  obtain b w1 where one: "make_reservation_next (request_movie ?q) (request_user ?q)
      (request_seat ?q) (request_now ?q) (progress ?q) w = (b, w1)"
    by (cases "make_reservation_next (request_movie ?q) (request_user ?q)
      (request_seat ?q) (request_now ?q) (progress ?q) w")
  have step: "pool_step i pool w = (pool[i := ?q\<lparr>progress := b\<rparr>], w1)"
    using True one by (simp add: pool_step_def)
  from same True have target: "request_movie ?q = m" "request_seat ?q = s" by simp_all
  have keep: "(m, s) \<in> set (map key (reservations w)) \<Longrightarrow> (m, s) \<in> set (map key (reservations w1))"
    using make_reservation_next_keeps_key[of "(m, s)" w "request_movie ?q" "request_user ?q"
        "request_seat ?q" "request_now ?q" "progress ?q"] one by simp
  have count: "length (filter succeeded (pool[i := ?q\<lparr>progress := b\<rparr>])) +
                 (if succeeded ?q then 1 else 0) =
               length (filter succeeded pool) + (if succeeded (?q\<lparr>progress := b\<rparr>) then 1 else 0)"
    using True by (rule filter_update_length)
  show ?thesis
  proof (cases "succeeded ?q")
    case True
    then have "b = progress ?q" "w1 = w" using one by (simp_all add: succeeded_def)
    then have "pool[i := ?q\<lparr>progress := b\<rparr>] = pool" by simp
    with inv step \<open>w1 = w\<close> show ?thesis by simp
  next
    case notyet: False
    show ?thesis
    proof (cases "b = Returned (Inr (Some True))")
      case False
      then have "\<not> succeeded (?q\<lparr>progress := b\<rparr>)" by (simp add: succeeded_def)
      with count notyet
      have "length (filter succeeded (pool[i := ?q\<lparr>progress := b\<rparr>])) =
            length (filter succeeded pool)" by simp
      with inv keep show ?thesis
        by (simp add: step one_winner_def) (metis length_0_conv)
    next
      case won: True
      from notyet have "progress ?q \<noteq> Returned (Inr (Some True))" by (simp add: succeeded_def)
      from make_reservation_next_True[OF one[unfolded won] this] target
      have free: "(m, s) \<notin> set (map key (reservations w))"
        and taken: "(m, s) \<in> set (map key (reservations w1))" by simp_all
      from free inv have none: "filter succeeded pool = []" by (auto simp: one_winner_def)
      from won have "succeeded (?q\<lparr>progress := b\<rparr>)" by (simp add: succeeded_def)
      with count notyet none
      have "length (filter succeeded (pool[i := ?q\<lparr>progress := b\<rparr>])) = 1" by simp
      with taken show ?thesis by (simp add: step one_winner_def)
    qed
  qed
qed

lemma run_pool_one_winner:
  "\<forall>q\<in>set pool. request_movie q = m \<and> request_seat q = s \<Longrightarrow> one_winner m s pool w \<Longrightarrow>
     one_winner m s (fst (run_pool schedule pool w)) (snd (run_pool schedule pool w))"
proof (induction schedule arbitrary: pool w)
  case Nil
  then show ?case by simp
next
  case (Cons i schedule)
  obtain pool1 w1 where one: "pool_step i pool w = (pool1, w1)" by (cases "pool_step i pool w")
  have same1: "\<forall>q\<in>set pool1. request_movie q = m \<and> request_seat q = s"
    using pool_step_same_seat[OF Cons.prems(1), of i w] one by simp
  have inv1: "one_winner m s pool1 w1"
    using pool_step_one_winner[OF Cons.prems, of i] one by simp
  from Cons.IH[OF same1 inv1] show ?case by (simp add: one)
qed

lemma make_reservation_next_distinct:
  "distinct (map key (reservations w)) \<Longrightarrow>
     distinct (map key (reservations (snd (make_reservation_next m u s now b w))))"
proof (cases b)
  case (At_insert as)
  assume "distinct (map key (reservations w))"
  then show ?thesis using At_insert
    by (cases as)
       (auto simp: execute_reservation_insert_eq insert_stmt_snd split: fault.splits)
qed (simp_all add: movie_exists_eq user_exists_eq)

lemma run_pool_distinct:
  "distinct (map key (reservations w)) \<Longrightarrow>
     distinct (map key (reservations (snd (run_pool schedule pool w))))"
proof (induction schedule arbitrary: pool w)
  case Nil
  then show ?case by simp
next
  case (Cons i schedule)
  obtain pool1 w1 where one: "pool_step i pool w = (pool1, w1)" by (cases "pool_step i pool w")
  have "distinct (map key (reservations w1))"
    using one Cons.prems
      make_reservation_next_distinct[of w "request_movie (pool ! i)" "request_user (pool ! i)"
        "request_seat (pool ! i)" "request_now (pool ! i)" "progress (pool ! i)"]
    by (auto simp: pool_step_def Let_def split: if_splits prod.splits)
  from Cons.IH[OF this] show ?case by (simp add: one)
qed



section \<open>Claims about booking\<close>

text \<open>
  Claim C1. Starting from an empty table \<^verbatim>\<open>reservations\<close>, after every prefix of every
  sequence of \<^verbatim>\<open>make_reservation\<close> and \<^verbatim>\<open>update_reservation\<close> calls, whatever outcomes the
  store calls meet, no two rows have the same (movie, seat). In a sequence in which no
  transfer moves a reservation away from (movie, seat), at most one booking of that key
  returns \<^verbatim>\<open>True\<close>, and every call returns \<^verbatim>\<open>True\<close>, \<^verbatim>\<open>False\<close> or nothing: none raises.
  The same holds for concurrent callers: when any number of \<^verbatim>\<open>make_reservation\<close> calls for
  one (movie, seat) run with their store calls interleaved in any order, at most one of them
  returns \<^verbatim>\<open>True\<close>, and rows stay unique; a caller that runs its steps alone is
  \<^verbatim>\<open>make_reservation\<close>.
\<close>

theorem one_reservation_per_seat:
  "(reservations w = [] \<longrightarrow>
      (\<forall>n. distinct (map key (reservations (snd (client_worker (take n cs) w)))))) \<and>
   ((\<forall>c\<in>set cs. \<not> releases m s c) \<longrightarrow>
      length (filter (booked_by m s) (zip cs (fst (client_worker cs w)))) \<le> 1) \<and>
   (\<forall>r\<in>set (fst (client_worker cs w)).
      r = Inr (Some True) \<or> r = Inr (Some False) \<or> r = Inr None) \<and>
   ((\<forall>q\<in>set pool. request_movie q = m \<and> request_seat q = s \<and> \<not> succeeded q) \<longrightarrow>
      length (filter succeeded (fst (run_pool schedule pool w))) \<le> 1) \<and>
   (distinct (map key (reservations w)) \<longrightarrow>
      distinct (map key (reservations (snd (run_pool schedule pool w))))) \<and>
   make_reservation_run 8 m u s now At_movie_check w =
     (Returned (fst (make_reservation m u s now w)), snd (make_reservation m u s now w))"
proof -
  have unique: "reservations w = [] \<longrightarrow>
      (\<forall>n. distinct (map key (reservations (snd (client_worker (take n cs) w)))))"
    using client_worker_distinct[of w] by simp
  have once: "(\<forall>c\<in>set cs. \<not> releases m s c) \<longrightarrow>
      length (filter (booked_by m s) (zip cs (fst (client_worker cs w)))) \<le> 1"
    using at_most_one_booking[of cs m s w] by blast
  have results: "r = Inr (Some True) \<or> r = Inr (Some False) \<or> r = Inr None"
    if "r \<in> set (fst (client_worker cs w))" for r
  proof -
    from client_worker_Inr[OF that] obtain v where "r = Inr v" by blast
    then show ?thesis by (cases v) auto
  qed
  have race: "length (filter succeeded (fst (run_pool schedule pool w))) \<le> 1"
    if "\<forall>q\<in>set pool. request_movie q = m \<and> request_seat q = s \<and> \<not> succeeded q"
  proof -
    from that have "filter succeeded pool = []" by (simp add: filter_empty_conv)
    then have start: "one_winner m s pool w" by (simp add: one_winner_def)
    from that have "\<forall>q\<in>set pool. request_movie q = m \<and> request_seat q = s" by blast
    from run_pool_one_winner[OF this start, of schedule] show ?thesis
      by (simp add: one_winner_def)
  qed
  from unique once results race run_pool_distinct[of w schedule pool]
    make_reservation_run_whole[of m u s now w]
  show ?thesis by blast
qed

theorem one_reservation_per_seat_witness:
  "reservations cinema = [] \<and>
   \<not> list_ex (releases ''Dune'' ''A1'') rush \<and>
   fst (client_worker rush cinema) =
     [Inr (Some True), Inr (Some False), Inr (Some True), Inr (Some True)] \<and>
   distinct (map key (reservations (snd (client_worker (take 4 rush) cinema)))) \<and>
   length (filter (booked_by ''Dune'' ''A1'') (zip rush (fst (client_worker rush cinema)))) = 1 \<and>
   \<not> list_ex succeeded contest \<and>
   map progress (fst (run_pool [0, 1, 0, 1, 1, 0] contest cinema)) =
     [Returned (Inr (Some False)), Returned (Inr (Some True))] \<and>
   length (filter succeeded (fst (run_pool [0, 1, 0, 1, 1, 0] contest cinema))) = 1"
  using one_reservation_per_seat[where w = cinema and cs = rush and m = "''Dune''"
      and s = "''A1''" and pool = contest and schedule = "[0, 1, 0, 1, 1, 0]" and u = 1
      and now = 10]
  by (simp add: rush_def contest_def pool_step_def succeeded_def run_simps)

text \<open>
  Claim C2. \<^verbatim>\<open>make_reservation\<close> returns \<^verbatim>\<open>False\<close> after the movie read alone when that read
  misses (no row, or the read fails), and after the movie and user reads alone when the user
  read misses: no insert is sent and the table is unchanged. When both reads hit and the
  conditional insert answers, exactly one insert was sent, for the row of (movie, seat), and
  the result is its \<^verbatim>\<open>was_applied\<close>: \<^verbatim>\<open>True\<close> when the key was free, \<^verbatim>\<open>False\<close> with no
  further attempt when it was taken. Whenever the method returns \<^verbatim>\<open>True\<close>, the key was
  free and its last statement was the insert that added the row.
\<close>

theorem make_reservation_outcomes:
  "(outcome 0 w \<noteq> No_fault \<or> m \<notin> set (movies w) \<longrightarrow>
      fst (make_reservation m u s now w) = Inr (Some False) \<and>
      reservations (snd (make_reservation m u s now w)) = reservations w \<and>
      trace (snd (make_reservation m u s now w)) = trace w @ [Execute (Movie_check m)]) \<and>
   (outcome 0 w = No_fault \<and> m \<in> set (movies w) \<and>
    (outcome 1 w \<noteq> No_fault \<or> u \<notin> set (users w)) \<longrightarrow>
      fst (make_reservation m u s now w) = Inr (Some False) \<and>
      reservations (snd (make_reservation m u s now w)) = reservations w \<and>
      trace (snd (make_reservation m u s now w)) =
        trace w @ [Execute (Movie_check m), Execute (User_check_by_id u)]) \<and>
   (outcome 0 w = No_fault \<and> m \<in> set (movies w) \<and>
    outcome 1 w = No_fault \<and> u \<in> set (users w) \<and> outcome 2 w = No_fault \<longrightarrow>
      fst (make_reservation m u s now w) =
        Inr (Some ((m, s) \<notin> set (map key (reservations w)))) \<and>
      trace (snd (make_reservation m u s now w)) =
        trace w @ [Execute (Movie_check m), Execute (User_check_by_id u),
          Execute (Reservation_insert
            \<lparr>movie_name = m, user_id = u, seat = s, creation = now, modification = now\<rparr>)]) \<and>
   (fst (make_reservation m u s now w) = Inr (Some True) \<longrightarrow>
      (m, s) \<notin> set (map key (reservations w)) \<and>
      reservations (snd (make_reservation m u s now w)) =
        reservations w @
          [\<lparr>movie_name = m, user_id = u, seat = s, creation = now, modification = now\<rparr>] \<and>
      last (trace (snd (make_reservation m u s now w))) =
        Execute (Reservation_insert
          \<lparr>movie_name = m, user_id = u, seat = s, creation = now, modification = now\<rparr>))"
proof -
  have reads: "outcome 0 w \<noteq> No_fault \<or> m \<notin> set (movies w) \<longrightarrow>
      fst (make_reservation m u s now w) = Inr (Some False) \<and>
      reservations (snd (make_reservation m u s now w)) = reservations w \<and>
      trace (snd (make_reservation m u s now w)) = trace w @ [Execute (Movie_check m)]"
    by (simp add: make_reservation_def movie_exists_eq)
  have user: "outcome 0 w = No_fault \<and> m \<in> set (movies w) \<and>
    (outcome 1 w \<noteq> No_fault \<or> u \<notin> set (users w)) \<longrightarrow>
      fst (make_reservation m u s now w) = Inr (Some False) \<and>
      reservations (snd (make_reservation m u s now w)) = reservations w \<and>
      trace (snd (make_reservation m u s now w)) =
        trace w @ [Execute (Movie_check m), Execute (User_check_by_id u)]"
    by (simp add: make_reservation_def movie_exists_eq user_exists_eq)
  have answer: "outcome 0 w = No_fault \<and> m \<in> set (movies w) \<and>
    outcome 1 w = No_fault \<and> u \<in> set (users w) \<and> outcome 2 w = No_fault \<longrightarrow>
      fst (make_reservation m u s now w) =
        Inr (Some ((m, s) \<notin> set (map key (reservations w)))) \<and>
      trace (snd (make_reservation m u s now w)) =
        trace w @ [Execute (Movie_check m), Execute (User_check_by_id u),
          Execute (Reservation_insert
            \<lparr>movie_name = m, user_id = u, seat = s, creation = now, modification = now\<rparr>)]"
    by (simp add: make_reservation_def movie_exists_eq user_exists_eq max_retries_def
        upt_conv_Cons execute_reservation_insert_eq numeral_2_eq_2)
  have success: "fst (make_reservation m u s now w) = Inr (Some True) \<longrightarrow>
      (m, s) \<notin> set (map key (reservations w)) \<and>
      reservations (snd (make_reservation m u s now w)) =
        reservations w @
          [\<lparr>movie_name = m, user_id = u, seat = s, creation = now, modification = now\<rparr>] \<and>
      last (trace (snd (make_reservation m u s now w))) =
        Execute (Reservation_insert
          \<lparr>movie_name = m, user_id = u, seat = s, creation = now, modification = now\<rparr>)"
    using make_reservation_True[of m u s now w "snd (make_reservation m u s now w)"]
    by (metis prod.collapse)
  from reads user answer success show ?thesis by blast
qed

theorem make_reservation_outcomes_witness:
  "''Alien'' \<notin> set (movies cinema) \<and>
   fst (make_reservation ''Alien'' 1 ''A1'' 10 cinema) = Inr (Some False) \<and>
   trace (snd (make_reservation ''Alien'' 1 ''A1'' 10 cinema)) = [Execute (Movie_check ''Alien'')] \<and>
   7 \<notin> set (users cinema) \<and>
   fst (make_reservation ''Dune'' 7 ''A1'' 10 cinema) = Inr (Some False) \<and>
   trace (snd (make_reservation ''Dune'' 7 ''A1'' 10 cinema)) =
     [Execute (Movie_check ''Dune''), Execute (User_check_by_id 7)] \<and>
   fst (make_reservation ''Dune'' 1 ''A1'' 10 cinema) = Inr (Some True) \<and>
   reservations (snd (make_reservation ''Dune'' 1 ''A1'' 10 cinema)) =
     [\<lparr>movie_name = ''Dune'', user_id = 1, seat = ''A1'', creation = 10, modification = 10\<rparr>] \<and>
   fst (make_reservation ''Dune'' 2 ''A1'' 11
     (cinema\<lparr>reservations :=
        [\<lparr>movie_name = ''Dune'', user_id = 1, seat = ''A1'', creation = 10, modification = 10\<rparr>]\<rparr>))
     = Inr (Some False)"
  using
    make_reservation_outcomes[where w = cinema and m = "''Alien''" and u = 1 and s = "''A1''"
      and now = 10]
    make_reservation_outcomes[where w = cinema and m = "''Dune''" and u = 7 and s = "''A1''"
      and now = 10]
    make_reservation_outcomes[where w = cinema and m = "''Dune''" and u = 1 and s = "''A1''"
      and now = 10]
    make_reservation_outcomes[where w = "cinema\<lparr>reservations :=
        [\<lparr>movie_name = ''Dune'', user_id = 1, seat = ''A1'', creation = 10, modification = 10\<rparr>]\<rparr>"
      and m = "''Dune''" and u = 2 and s = "''A1''" and now = 11]
  by (simp add: cinema_def outcome_def)

text \<open>
  Claim C8. Let both reads of \<^verbatim>\<open>make_reservation\<close> hit and the first \<open>n\<close> conditional
  inserts end ambiguous, where \<open>n\<close> is 5 or the next outcome is not ambiguous. Then the
  method sends the same insert \<open>min n 4 + 1\<close> times, at most 5 times, and sleeps
  \<^verbatim>\<open>0.1 * k\<close> seconds after the \<open>k\<close>-th attempt and before the next; nothing else is sent, so
  an outcome that is not ambiguous ends the attempts. After 5 ambiguous attempts, and after
  an error that is not ambiguous, the method returns no value, which is not success. When
  the insert after \<open>n < 5\<close> ambiguous attempts answers, the method returns \<^verbatim>\<open>True\<close> exactly
  when the key was free and none of the ambiguous attempts was committed.
\<close>

theorem make_reservation_retries:
  assumes "outcome 0 w = No_fault" and "m \<in> set (movies w)"
    and "outcome 1 w = No_fault" and "u \<in> set (users w)"
    and "n \<le> 5" and "\<forall>i<n. ambiguous (outcome (2 + i) w)"
    and "n < 5 \<longrightarrow> \<not> ambiguous (outcome (2 + n) w)"
  shows "trace (snd (make_reservation m u s now w)) =
           trace w @ [Execute (Movie_check m), Execute (User_check_by_id u)] @
           concat (map (\<lambda>k. [Execute (Reservation_insert
                     \<lparr>movie_name = m, user_id = u, seat = s, creation = now, modification = now\<rparr>),
                   Sleep k]) [1..<Suc (min n 4)]) @
           [Execute (Reservation_insert
              \<lparr>movie_name = m, user_id = u, seat = s, creation = now, modification = now\<rparr>)] \<and>
         (n = 5 \<or> raises (outcome (2 + n) w) \<longrightarrow>
            fst (make_reservation m u s now w) = Inr None) \<and>
         (n < 5 \<and> outcome (2 + n) w = No_fault \<longrightarrow>
            fst (make_reservation m u s now w) =
              Inr (Some ((m, s) \<notin> set (map key (reservations w)) \<and>
                         (\<forall>i<n. \<not> committed (outcome (2 + i) w)))))"
proof -
  let ?r = "\<lparr>movie_name = m, user_id = u, seat = s, creation = now, modification = now\<rparr>"
  let ?w2 = "sent (User_check_by_id u) (sent (Movie_check m) w)"
  have out: "\<And>i. outcome i ?w2 = outcome (2 + i) w" by simp
  have loop: "trace (snd (make_reservation_attempts [0..<5] ?r ?w2)) =
           trace ?w2 @
           concat (map (\<lambda>k. [Execute (Reservation_insert ?r), Sleep k])
                     [Suc 0..<Suc (0 + min n (4 - 0))]) @
           [Execute (Reservation_insert ?r)] \<and>
         (0 + n = 5 \<or> raises (outcome n ?w2) \<longrightarrow> isl (fst (make_reservation_attempts [0..<5] ?r ?w2))) \<and>
         (0 + n < 5 \<and> outcome n ?w2 = No_fault \<longrightarrow>
            fst (make_reservation_attempts [0..<5] ?r ?w2) =
              Inr (Some (key ?r \<notin> set (map key (reservations ?w2)) \<and>
                         (\<forall>i<n. \<not> committed (outcome i ?w2)))))"
    using assms(5-7) by (intro make_reservation_attempts_retry) (simp_all add: add.commute)
  obtain res w3 where run: "make_reservation_attempts [0..<5] ?r ?w2 = (res, w3)"
    by (cases "make_reservation_attempts [0..<5] ?r ?w2")
  have whole: "make_reservation m u s now w =
                 (case res of Inl e \<Rightarrow> Inr None | Inr v \<Rightarrow> Inr v, w3)"
    using assms(1-4) run
    by (simp add: make_reservation_def movie_exists_eq user_exists_eq max_retries_def
        split: sum.splits)
  from loop show ?thesis
    unfolding whole run by (cases res) (simp_all add: add.commute)
qed

theorem make_reservation_retries_witness:
  "fst (make_reservation ''Dune'' 1 ''A1'' 10
     (cinema\<lparr>faults := [No_fault, No_fault, Raises cas_timeout False, Raises cas_timeout False,
        Raises cas_timeout False, Raises cas_timeout False, Raises cas_timeout False]\<rparr>)) = Inr None \<and>
   trace (snd (make_reservation ''Dune'' 1 ''A1'' 10
     (cinema\<lparr>faults := [No_fault, No_fault, Raises cas_timeout False, Raises cas_timeout False,
        Raises cas_timeout False, Raises cas_timeout False, Raises cas_timeout False]\<rparr>))) =
     [Execute (Movie_check ''Dune''), Execute (User_check_by_id 1),
      Execute (Reservation_insert
        \<lparr>movie_name = ''Dune'', user_id = 1, seat = ''A1'', creation = 10, modification = 10\<rparr>),
      Sleep 1,
      Execute (Reservation_insert
        \<lparr>movie_name = ''Dune'', user_id = 1, seat = ''A1'', creation = 10, modification = 10\<rparr>),
      Sleep 2,
      Execute (Reservation_insert
        \<lparr>movie_name = ''Dune'', user_id = 1, seat = ''A1'', creation = 10, modification = 10\<rparr>),
      Sleep 3,
      Execute (Reservation_insert
        \<lparr>movie_name = ''Dune'', user_id = 1, seat = ''A1'', creation = 10, modification = 10\<rparr>),
      Sleep 4,
      Execute (Reservation_insert
        \<lparr>movie_name = ''Dune'', user_id = 1, seat = ''A1'', creation = 10, modification = 10\<rparr>)] \<and>
   fst (make_reservation ''Dune'' 1 ''A1'' 10
     (cinema\<lparr>faults := [No_fault, No_fault, Raises cas_timeout False, Raises cas_timeout False]\<rparr>))
     = Inr (Some True) \<and>
   fst (make_reservation ''Dune'' 1 ''A1'' 10
     (cinema\<lparr>faults := [No_fault, No_fault, Raises cas_timeout False, Raises cas_timeout True]\<rparr>))
     = Inr (Some False) \<and>
   fst (make_reservation ''Dune'' 1 ''A1'' 10
     (cinema\<lparr>faults := [No_fault, No_fault, Raises cas_timeout False, Raises ''Unavailable'' False]\<rparr>))
     = Inr None \<and>
   trace (snd (make_reservation ''Dune'' 1 ''A1'' 10
     (cinema\<lparr>faults := [No_fault, No_fault, Raises cas_timeout False, Raises ''Unavailable'' False]\<rparr>))) =
     [Execute (Movie_check ''Dune''), Execute (User_check_by_id 1),
      Execute (Reservation_insert
        \<lparr>movie_name = ''Dune'', user_id = 1, seat = ''A1'', creation = 10, modification = 10\<rparr>),
      Sleep 1,
      Execute (Reservation_insert
        \<lparr>movie_name = ''Dune'', user_id = 1, seat = ''A1'', creation = 10, modification = 10\<rparr>)]"
  using
    make_reservation_retries[where n = 5 and m = "''Dune''" and u = 1 and s = "''A1''" and now = 10
      and w = "cinema\<lparr>faults := [No_fault, No_fault, Raises cas_timeout False,
        Raises cas_timeout False, Raises cas_timeout False, Raises cas_timeout False,
        Raises cas_timeout False]\<rparr>"]
    make_reservation_retries[where n = 2 and m = "''Dune''" and u = 1 and s = "''A1''" and now = 10
      and w = "cinema\<lparr>faults := [No_fault, No_fault, Raises cas_timeout False,
        Raises cas_timeout False]\<rparr>"]
    make_reservation_retries[where n = 2 and m = "''Dune''" and u = 1 and s = "''A1''" and now = 10
      and w = "cinema\<lparr>faults := [No_fault, No_fault, Raises cas_timeout False,
        Raises cas_timeout True]\<rparr>"]
    make_reservation_retries[where n = 1 and m = "''Dune''" and u = 1 and s = "''A1''" and now = 10
      and w = "cinema\<lparr>faults := [No_fault, No_fault, Raises cas_timeout False,
        Raises ''Unavailable'' False]\<rparr>"]
  by (simp add: cinema_def outcome_def All_less_Suc eval_nat_numeral upt_conv_Cons)

section \<open>Claims about transfers\<close>

text \<open>
  Claim C3, at the input where the code departs from it. Let the new seat be free, the
  claim insert of the first attempt be applied and the release delete of that attempt end
  ambiguous. The claim says that the release is retried and the insert is not sent again.
  \<^verbatim>\<open>update_reservation\<close> has one loop around both steps: after sleeping it sends the claim
  insert again, which finds the row of the first attempt, and returns \<^verbatim>\<open>False\<close>; the
  release is never sent again, nothing is rolled back, and the new seat stays reserved.
\<close>

theorem update_reservation_release_ambiguous:
  assumes "outcome 0 w = No_fault" and "m \<in> set (movies w)"
    and "outcome 1 w = No_fault" and "u \<in> set (users w)"
    and "outcome 2 w = No_fault"
    and "reservation_check_stmt m cur (reservations w) = (u, c) # others"
    and "new \<noteq> cur" and "(m, new) \<notin> set (map key (reservations w))"
    and "outcome 3 w = No_fault" and "ambiguous (outcome 4 w)" and "outcome 5 w = No_fault"
  shows "fst (update_reservation m cur new u now w) = Inr (Some False) \<and>
         trace (snd (update_reservation m cur new u now w)) =
           trace w @
           [Execute (Movie_check m), Execute (User_check_by_id u),
            Execute (Reservation_check m cur),
            Execute (Reservation_insert
              \<lparr>movie_name = m, user_id = u, seat = new, creation = c, modification = now\<rparr>),
            Execute (Reservation_delete m cur u),
            Sleep 1,
            Execute (Reservation_insert
              \<lparr>movie_name = m, user_id = u, seat = new, creation = c, modification = now\<rparr>)] \<and>
         \<lparr>movie_name = m, user_id = u, seat = new, creation = c, modification = now\<rparr>
           \<in> set (reservations (snd (update_reservation m cur new u now w)))"
proof -
  let ?r = "\<lparr>movie_name = m, user_id = u, seat = new, creation = c, modification = now\<rparr>"
  from assms(10) obtain e committed where release: "outcome 4 w = Raises e committed"
    and unknown: "cas_unknown e"
    by (cases "outcome 4 w") simp_all
  have kept: "?r \<in> set (snd (reservation_delete_stmt m cur u (reservations w @ [?r])))"
    using assms(7) by (simp add: delete_stmt_snd)
  then have taken: "(m, new) \<in> key ` set (snd (reservation_delete_stmt m cur u (reservations w @ [?r])))"
    by (metis key_row rev_image_eqI)
  show ?thesis
    using assms(1-9,11) release unknown kept taken
    by (simp add: update_reservation_def update_reservation_try_def update_reservation_step_def
        movie_exists_eq user_exists_eq execute_reservation_check_eq
        execute_reservation_insert_eq execute_reservation_delete_eq insert_stmt_snd
        max_retries_def upt_conv_Cons eval_nat_numeral)
qed

theorem update_reservation_release_ambiguous_witness:
  "fst (update_reservation ''Dune'' ''A1'' ''B2'' 1 20
     (booked\<lparr>faults := [No_fault, No_fault, No_fault, No_fault, Raises cas_timeout False]\<rparr>))
     = Inr (Some False) \<and>
   trace (snd (update_reservation ''Dune'' ''A1'' ''B2'' 1 20
     (booked\<lparr>faults := [No_fault, No_fault, No_fault, No_fault, Raises cas_timeout False]\<rparr>))) =
     [Execute (Movie_check ''Dune''), Execute (User_check_by_id 1),
      Execute (Reservation_check ''Dune'' ''A1''),
      Execute (Reservation_insert
        \<lparr>movie_name = ''Dune'', user_id = 1, seat = ''B2'', creation = 10, modification = 20\<rparr>),
      Execute (Reservation_delete ''Dune'' ''A1'' 1),
      Sleep 1,
      Execute (Reservation_insert
        \<lparr>movie_name = ''Dune'', user_id = 1, seat = ''B2'', creation = 10, modification = 20\<rparr>)] \<and>
   reservations (snd (update_reservation ''Dune'' ''A1'' ''B2'' 1 20
     (booked\<lparr>faults := [No_fault, No_fault, No_fault, No_fault, Raises cas_timeout False]\<rparr>))) =
     [\<lparr>movie_name = ''Dune'', user_id = 1, seat = ''A1'', creation = 10, modification = 10\<rparr>,
      \<lparr>movie_name = ''Dune'', user_id = 1, seat = ''B2'', creation = 10, modification = 20\<rparr>]"
  using update_reservation_release_ambiguous[where m = "''Dune''" and cur = "''A1''"
      and new = "''B2''" and u = 1 and now = 20 and c = 10 and others = "[]"
      and w = "booked\<lparr>faults := [No_fault, No_fault, No_fault, No_fault,
        Raises cas_timeout False]\<rparr>"]
  by (simp add: run_simps)

text \<open>
  Claim C4 as stated fails: at the input below the conditional insert raises an error that
  is not ambiguous, and neither method lets it reach the caller. \<^verbatim>\<open>make_reservation\<close>
  ends without a value and \<^verbatim>\<open>update_reservation\<close> returns \<^verbatim>\<open>False\<close>.
\<close>

theorem store_error_propagates_counterexample:
  "\<not> cas_unknown ''Unavailable'' \<and>
   fst (make_reservation ''Dune'' 1 ''A1'' 10
     (cinema\<lparr>faults := [No_fault, No_fault, Raises ''Unavailable'' False]\<rparr>)) = Inr None \<and>
   fst (make_reservation ''Dune'' 1 ''A1'' 10
     (cinema\<lparr>faults := [No_fault, No_fault, Raises ''Unavailable'' False]\<rparr>)) \<noteq> Inl ''Unavailable'' \<and>
   fst (update_reservation ''Dune'' ''A1'' ''B2'' 1 20
     (booked\<lparr>faults := [No_fault, No_fault, No_fault, Raises ''Unavailable'' False]\<rparr>))
     = Inr (Some False) \<and>
   fst (update_reservation ''Dune'' ''A1'' ''B2'' 1 20
     (booked\<lparr>faults := [No_fault, No_fault, No_fault, Raises ''Unavailable'' False]\<rparr>))
     \<noteq> Inl ''Unavailable''"
  by (simp add: run_simps)

text \<open>
  Claim C4, amended. No exception of a store call leaves \<^verbatim>\<open>make_reservation\<close> or
  \<^verbatim>\<open>update_reservation\<close>: both always return a value. When the conditional insert raises an
  error that is not ambiguous, it is not sent again; \<^verbatim>\<open>make_reservation\<close> returns a result
  that is not \<^verbatim>\<open>True\<close>, and \<^verbatim>\<open>update_reservation\<close> returns \<^verbatim>\<open>False\<close>, as it does when the
  read of the current reservation raises.
\<close>

theorem store_errors_are_caught:
  "(\<exists>v. fst (make_reservation m u s now w) = Inr v) \<and>
   (\<exists>v. fst (update_reservation m cur new u now w) = Inr v) \<and>
   (outcome 0 w = No_fault \<and> m \<in> set (movies w) \<and>
    outcome 1 w = No_fault \<and> u \<in> set (users w) \<and>
    raises (outcome 2 w) \<and> \<not> ambiguous (outcome 2 w) \<longrightarrow>
      fst (make_reservation m u s now w) \<noteq> Inr (Some True) \<and>
      trace (snd (make_reservation m u s now w)) =
        trace w @ [Execute (Movie_check m), Execute (User_check_by_id u),
          Execute (Reservation_insert
            \<lparr>movie_name = m, user_id = u, seat = s, creation = now, modification = now\<rparr>)]) \<and>
   (outcome 0 w = No_fault \<and> m \<in> set (movies w) \<and>
    outcome 1 w = No_fault \<and> u \<in> set (users w) \<and> raises (outcome 2 w) \<longrightarrow>
      fst (update_reservation m cur new u now w) = Inr (Some False) \<and>
      trace (snd (update_reservation m cur new u now w)) =
        trace w @ [Execute (Movie_check m), Execute (User_check_by_id u),
          Execute (Reservation_check m cur)]) \<and>
   (outcome 0 w = No_fault \<and> m \<in> set (movies w) \<and>
    outcome 1 w = No_fault \<and> u \<in> set (users w) \<and> outcome 2 w = No_fault \<and>
    reservation_check_stmt m cur (reservations w) = (u, c) # others \<and> new \<noteq> cur \<and>
    raises (outcome 3 w) \<and> \<not> ambiguous (outcome 3 w) \<longrightarrow>
      fst (update_reservation m cur new u now w) = Inr (Some False) \<and>
      trace (snd (update_reservation m cur new u now w)) =
        trace w @ [Execute (Movie_check m), Execute (User_check_by_id u),
          Execute (Reservation_check m cur),
          Execute (Reservation_insert
            \<lparr>movie_name = m, user_id = u, seat = new, creation = c, modification = now\<rparr>)])"
proof -
  have book: "outcome 0 w = No_fault \<and> m \<in> set (movies w) \<and>
    outcome 1 w = No_fault \<and> u \<in> set (users w) \<and>
    raises (outcome 2 w) \<and> \<not> ambiguous (outcome 2 w) \<longrightarrow>
      fst (make_reservation m u s now w) \<noteq> Inr (Some True) \<and>
      trace (snd (make_reservation m u s now w)) =
        trace w @ [Execute (Movie_check m), Execute (User_check_by_id u),
          Execute (Reservation_insert
            \<lparr>movie_name = m, user_id = u, seat = s, creation = now, modification = now\<rparr>)]"
    by (cases "outcome 2 w")
       (simp_all add: make_reservation_def movie_exists_eq user_exists_eq max_retries_def
          upt_conv_Cons execute_reservation_insert_eq numeral_2_eq_2)
  have read: "outcome 0 w = No_fault \<and> m \<in> set (movies w) \<and>
    outcome 1 w = No_fault \<and> u \<in> set (users w) \<and> raises (outcome 2 w) \<longrightarrow>
      fst (update_reservation m cur new u now w) = Inr (Some False) \<and>
      trace (snd (update_reservation m cur new u now w)) =
        trace w @ [Execute (Movie_check m), Execute (User_check_by_id u),
          Execute (Reservation_check m cur)]"
    by (cases "outcome 2 w")
       (simp_all add: update_reservation_def update_reservation_try_def movie_exists_eq
          user_exists_eq execute_reservation_check_eq numeral_2_eq_2)
  have claim: "outcome 0 w = No_fault \<and> m \<in> set (movies w) \<and>
    outcome 1 w = No_fault \<and> u \<in> set (users w) \<and> outcome 2 w = No_fault \<and>
    reservation_check_stmt m cur (reservations w) = (u, c) # others \<and> new \<noteq> cur \<and>
    raises (outcome 3 w) \<and> \<not> ambiguous (outcome 3 w) \<longrightarrow>
      fst (update_reservation m cur new u now w) = Inr (Some False) \<and>
      trace (snd (update_reservation m cur new u now w)) =
        trace w @ [Execute (Movie_check m), Execute (User_check_by_id u),
          Execute (Reservation_check m cur),
          Execute (Reservation_insert
            \<lparr>movie_name = m, user_id = u, seat = new, creation = c, modification = now\<rparr>)]"
    by (cases "outcome 3 w")
       (simp_all add: update_reservation_def update_reservation_try_def
          update_reservation_step_def movie_exists_eq
          user_exists_eq execute_reservation_check_eq execute_reservation_insert_eq
          max_retries_def upt_conv_Cons numeral_2_eq_2 numeral_3_eq_3)
  from make_reservation_Inr[of m u s now w] update_reservation_Inr[of m cur new u now w]
    book read claim
  show ?thesis by blast
qed

theorem store_errors_are_caught_witness:
  "raises (outcome 2 (cinema\<lparr>faults := [No_fault, No_fault, Raises ''Unavailable'' False]\<rparr>)) \<and>
   \<not> ambiguous (outcome 2 (cinema\<lparr>faults := [No_fault, No_fault, Raises ''Unavailable'' False]\<rparr>)) \<and>
   fst (make_reservation ''Dune'' 1 ''A1'' 10
     (cinema\<lparr>faults := [No_fault, No_fault, Raises ''Unavailable'' False]\<rparr>)) \<noteq> Inr (Some True) \<and>
   fst (update_reservation ''Dune'' ''A1'' ''B2'' 1 20
     (booked\<lparr>faults := [No_fault, No_fault, Raises ''Unavailable'' False]\<rparr>)) = Inr (Some False) \<and>
   fst (update_reservation ''Dune'' ''A1'' ''B2'' 1 20
     (booked\<lparr>faults := [No_fault, No_fault, No_fault, Raises ''Unavailable'' False]\<rparr>))
     = Inr (Some False)"
  using
    store_errors_are_caught[where m = "''Dune''" and u = 1 and s = "''A1''" and now = 10
      and cur = "''A1''" and new = "''B2''" and c = 10 and others = "[]"
      and w = "cinema\<lparr>faults := [No_fault, No_fault, Raises ''Unavailable'' False]\<rparr>"]
    store_errors_are_caught[where m = "''Dune''" and u = 1 and s = "''A1''" and now = 20
      and cur = "''A1''" and new = "''B2''" and c = 10 and others = "[]"
      and w = "booked\<lparr>faults := [No_fault, No_fault, Raises ''Unavailable'' False]\<rparr>"]
    store_errors_are_caught[where m = "''Dune''" and u = 1 and s = "''A1''" and now = 20
      and cur = "''A1''" and new = "''B2''" and c = 10 and others = "[]"
      and w = "booked\<lparr>faults := [No_fault, No_fault, No_fault, Raises ''Unavailable'' False]\<rparr>"]
  by (simp add: cinema_def booked_def outcome_def reservation_check_stmt_def)

text \<open>
  Claim C5. When \<^verbatim>\<open>update_reservation\<close> returns \<^verbatim>\<open>True\<close> for two different seats, the only
  row at (movie, new seat) afterwards is the row that was at (movie, current seat) with the
  seat and the modification timestamp replaced: the user id is the caller's and the same,
  and so is the creation timestamp. No row is left at (movie, current seat).
\<close>

theorem update_reservation_keeps_creation:
  assumes "update_reservation m cur new u now w = (Inr (Some True), w')"
    and "cur \<noteq> new"
    and "find (\<lambda>r. key r = (m, cur)) (reservations w) = Some r0"
  shows "filter (\<lambda>r. key r = (m, new)) (reservations w') =
           [r0\<lparr>seat := new, modification := now\<rparr>] \<and>
         user_id r0 = u \<and>
         filter (\<lambda>r. key r = (m, cur)) (reservations w') = []"
proof -
  from update_reservation_True[OF assms(1,2)] assms(3)
  have owner: "user_id r0 = u"
    and free: "(m, new) \<notin> set (map key (reservations w))"
    and final: "reservations w' =
             filter (\<lambda>x. key x \<noteq> (m, cur))
               (reservations w @
                 [\<lparr>movie_name = m, user_id = u, seat = new, creation = creation r0,
                   modification = now\<rparr>])"
    by auto
  from find_key[OF assms(3)] have k0: "movie_name r0 = m" "seat r0 = cur"
    by (simp_all add: key_def)
  have same: "r0\<lparr>seat := new, modification := now\<rparr> =
     \<lparr>movie_name = m, user_id = u, seat = new, creation = creation r0, modification = now\<rparr>"
    using k0 owner by simp
  have "filter (\<lambda>r. key r = (m, new)) (reservations w') =
          [\<lparr>movie_name = m, user_id = u, seat = new, creation = creation r0, modification = now\<rparr>]"
  proof -
    have "\<forall>r\<in>set (reservations w). key r \<noteq> (m, new)" using free by force
    then have "filter (\<lambda>r. key r \<noteq> (m, cur) \<and> key r = (m, new)) (reservations w) = []"
      by (simp add: filter_empty_conv)
    then show ?thesis using assms(2) by (simp add: final)
  qed
  moreover have "filter (\<lambda>r. key r = (m, cur)) (reservations w') = []"
    by (simp add: final)
  ultimately show ?thesis using same owner by simp
qed

theorem update_reservation_keeps_creation_witness:
  "find (\<lambda>r. key r = (''Dune'', ''A1'')) (reservations booked) =
     Some \<lparr>movie_name = ''Dune'', user_id = 1, seat = ''A1'', creation = 10, modification = 10\<rparr> \<and>
   fst (update_reservation ''Dune'' ''A1'' ''B2'' 1 20 booked) = Inr (Some True) \<and>
   filter (\<lambda>r. key r = (''Dune'', ''B2''))
     (reservations (snd (update_reservation ''Dune'' ''A1'' ''B2'' 1 20 booked))) =
     [\<lparr>movie_name = ''Dune'', user_id = 1, seat = ''B2'', creation = 10, modification = 20\<rparr>]"
  using update_reservation_keeps_creation[where m = "''Dune''" and cur = "''A1''"
      and new = "''B2''" and u = 1 and now = 20 and w = booked
      and w' = "snd (update_reservation ''Dune'' ''A1'' ''B2'' 1 20 booked)"
      and ?r0.0 = "\<lparr>movie_name = ''Dune'', user_id = 1, seat = ''A1'', creation = 10,
        modification = 10\<rparr>"]
  by (simp add: run_simps)

text \<open>
  Claim C6. When the new seat of a transfer between two different seats is taken,
  \<^verbatim>\<open>update_reservation\<close> returns \<^verbatim>\<open>False\<close>, the table is unchanged, and no delete is sent:
  neither the release nor a rollback. In any attempt whose claim insert answers "not
  applied", the loop returns \<^verbatim>\<open>False\<close> at once: the insert is the last statement sent and
  the table is as before it.
\<close>

theorem update_reservation_seat_taken:
  assumes "(m, new) \<in> set (map key (reservations w))" and "cur \<noteq> new"
  shows "fst (update_reservation m cur new u now w) = Inr (Some False) \<and>
         reservations (snd (update_reservation m cur new u now w)) = reservations w \<and>
         filter is_delete (trace (snd (update_reservation m cur new u now w))) =
           filter is_delete (trace w) \<and>
         (outcome 0 w = No_fault \<longrightarrow>
            fst (update_reservation_attempts (a # rest) m cur new u oc now w) = Inr (Some False) \<and>
            reservations (snd (update_reservation_attempts (a # rest) m cur new u oc now w)) =
              reservations w \<and>
            trace (snd (update_reservation_attempts (a # rest) m cur new u oc now w)) =
              trace w @ [Execute (Reservation_insert
                \<lparr>movie_name = m, user_id = u, seat = new, creation = oc, modification = now\<rparr>)])"
proof -
  let ?w2 = "sent (User_check_by_id u) (sent (Movie_check m) w)"
  let ?w3 = "sent (Reservation_check m cur) ?w2"
  have taken3: "(m, new) \<in> set (map key (reservations ?w3))" using assms(1) by simp
  have loop: "res' \<noteq> Inr (Some True) \<and> res' \<noteq> Inr None \<and> reservations w' = reservations w \<and>
              filter is_delete (trace w') = filter is_delete (trace w)"
    if "update_reservation_attempts [0..<max_retries] m cur new u c now ?w3 = (res', w')"
    for c res' w'
    using update_reservation_attempts_taken[OF taken3, of "[0..<max_retries]" cur u c now]
      update_reservation_attempts_not_None[of "[0..<max_retries]" m cur new u c now ?w3] that
    by (simp add: max_retries_def)
  obtain res w4 where body: "update_reservation_try m cur new u now ?w2 = (res, w4)"
    by (cases "update_reservation_try m cur new u now ?w2")
  then have "res \<noteq> Inr (Some True) \<and> res \<noteq> Inr None \<and> reservations w4 = reservations w \<and>
             filter is_delete (trace w4) = filter is_delete (trace w)"
    using assms(2) loop
    by (auto simp: update_reservation_try_def execute_reservation_check_eq
        split: fault.splits list.splits if_splits)
  then have whole: "fst (update_reservation m cur new u now w) = Inr (Some False) \<and>
         reservations (snd (update_reservation m cur new u now w)) = reservations w \<and>
         filter is_delete (trace (snd (update_reservation m cur new u now w))) =
           filter is_delete (trace w)"
    by (cases res)
       (auto simp: update_reservation_def movie_exists_eq user_exists_eq body)
  obtain r1 w1 where one: "update_reservation_step m cur new u oc now w = (r1, w1)"
    by (cases "update_reservation_step m cur new u oc now w")
  from update_reservation_step_taken[OF assms(1), of cur u oc now] one
  have "outcome 0 w = No_fault \<longrightarrow>
            fst (update_reservation_attempts (a # rest) m cur new u oc now w) = Inr (Some False) \<and>
            reservations (snd (update_reservation_attempts (a # rest) m cur new u oc now w)) =
              reservations w \<and>
            trace (snd (update_reservation_attempts (a # rest) m cur new u oc now w)) =
              trace w @ [Execute (Reservation_insert
                \<lparr>movie_name = m, user_id = u, seat = new, creation = oc, modification = now\<rparr>)]"
    by (auto simp: one)
  with whole show ?thesis by blast
qed

theorem update_reservation_seat_taken_witness:
  "(''Dune'', ''B2'') \<in> set (map key (reservations (booked\<lparr>reservations := reservations booked @
      [\<lparr>movie_name = ''Dune'', user_id = 2, seat = ''B2'', creation = 11, modification = 11\<rparr>]\<rparr>))) \<and>
   fst (update_reservation ''Dune'' ''A1'' ''B2'' 1 20 (booked\<lparr>reservations := reservations booked @
      [\<lparr>movie_name = ''Dune'', user_id = 2, seat = ''B2'', creation = 11, modification = 11\<rparr>]\<rparr>))
     = Inr (Some False) \<and>
   reservations (snd (update_reservation ''Dune'' ''A1'' ''B2'' 1 20
     (booked\<lparr>reservations := reservations booked @
      [\<lparr>movie_name = ''Dune'', user_id = 2, seat = ''B2'', creation = 11, modification = 11\<rparr>]\<rparr>))) =
     [\<lparr>movie_name = ''Dune'', user_id = 1, seat = ''A1'', creation = 10, modification = 10\<rparr>,
      \<lparr>movie_name = ''Dune'', user_id = 2, seat = ''B2'', creation = 11, modification = 11\<rparr>]"
  using update_reservation_seat_taken[where m = "''Dune''" and cur = "''A1''" and new = "''B2''"
      and u = 1 and now = 20 and a = 0 and rest = "[]" and oc = 10
      and w = "booked\<lparr>reservations := reservations booked @
      [\<lparr>movie_name = ''Dune'', user_id = 2, seat = ''B2'', creation = 11, modification = 11\<rparr>]\<rparr>"]
  by (simp add: booked_def cinema_def outcome_def)

text \<open>
  Claim C7. When booking seat \<open>x\<close>, transferring it to another seat \<open>y\<close> and transferring
  it back all return \<^verbatim>\<open>True\<close>, with nothing in between, the table at the end is the table
  right after the booking, except that the row at (movie, \<open>x\<close>) has the time of the last
  transfer as its modification timestamp, which is later when the clock moved on: same
  user id, same creation timestamp.
\<close>

theorem book_transfer_round_trip:
  assumes "make_reservation m u x t0 w = (Inr (Some True), w1)"
    and "update_reservation m x y u t1 w1 = (Inr (Some True), w2)"
    and "update_reservation m y x u t2 w2 = (Inr (Some True), w3)"
    and "x \<noteq> y" and "t0 < t2"
  shows "reservations w1 =
           reservations w @
             [\<lparr>movie_name = m, user_id = u, seat = x, creation = t0, modification = t0\<rparr>] \<and>
         reservations w3 =
           reservations w @
             [\<lparr>movie_name = m, user_id = u, seat = x, creation = t0, modification = t0\<rparr>
                \<lparr>modification := t2\<rparr>] \<and>
         modification (last (reservations w1)) < modification (last (reservations w3))"
proof -
  let ?rx = "\<lparr>movie_name = m, user_id = u, seat = x, creation = t0, modification = t0\<rparr>"
  let ?ry = "\<lparr>movie_name = m, user_id = u, seat = y, creation = t0, modification = t1\<rparr>"
  from make_reservation_True[OF assms(1)]
  have x_free: "(m, x) \<notin> set (map key (reservations w))"
    and s1: "reservations w1 = reservations w @ [?rx]" by simp_all
  have at_x: "find (\<lambda>r. key r = (m, x)) (reservations w1) = Some ?rx"
    using find_fresh_row[of ?rx "reservations w"] x_free s1 by simp
  from update_reservation_True[OF assms(2,4)] at_x
  have y_free1: "(m, y) \<notin> set (map key (reservations w1))"
    and s2': "reservations w2 = filter (\<lambda>r. key r \<noteq> (m, x)) (reservations w1 @ [?ry])"
    by auto
  have y_free: "(m, y) \<notin> set (map key (reservations w))" using y_free1 s1 by simp
  have s2: "reservations w2 = reservations w @ [?ry]"
    using s2' s1 x_free assms(4) by (simp add: filter_other_keys)
  have at_y: "find (\<lambda>r. key r = (m, y)) (reservations w2) = Some ?ry"
    using find_fresh_row[of ?ry "reservations w"] y_free s2 by simp
  from update_reservation_True[OF assms(3) assms(4)[symmetric]] at_y
  have "reservations w3 =
          filter (\<lambda>r. key r \<noteq> (m, y))
            (reservations w2 @
              [\<lparr>movie_name = m, user_id = u, seat = x, creation = t0, modification = t2\<rparr>])"
    by auto
  then have s3: "reservations w3 =
      reservations w @ [\<lparr>movie_name = m, user_id = u, seat = x, creation = t0, modification = t2\<rparr>]"
    using s2 y_free assms(4) by (simp add: filter_other_keys)
  from s1 s3 assms(5) show ?thesis by simp
qed

theorem book_transfer_round_trip_witness:
  "fst (make_reservation ''Dune'' 1 ''A1'' 10 cinema) = Inr (Some True) \<and>
   fst (update_reservation ''Dune'' ''A1'' ''B2'' 1 20
          (snd (make_reservation ''Dune'' 1 ''A1'' 10 cinema))) = Inr (Some True) \<and>
   fst (update_reservation ''Dune'' ''B2'' ''A1'' 1 30
          (snd (update_reservation ''Dune'' ''A1'' ''B2'' 1 20
             (snd (make_reservation ''Dune'' 1 ''A1'' 10 cinema))))) = Inr (Some True) \<and>
   reservations (snd (make_reservation ''Dune'' 1 ''A1'' 10 cinema)) =
     [\<lparr>movie_name = ''Dune'', user_id = 1, seat = ''A1'', creation = 10, modification = 10\<rparr>] \<and>
   reservations (snd (update_reservation ''Dune'' ''B2'' ''A1'' 1 30
          (snd (update_reservation ''Dune'' ''A1'' ''B2'' 1 20
             (snd (make_reservation ''Dune'' 1 ''A1'' 10 cinema)))))) =
     [\<lparr>movie_name = ''Dune'', user_id = 1, seat = ''A1'', creation = 10, modification = 30\<rparr>]"
  using book_transfer_round_trip[where m = "''Dune''" and u = 1 and x = "''A1''" and y = "''B2''"
      and ?t0.0 = 10 and ?t1.0 = 20 and ?t2.0 = 30 and w = cinema
      and ?w1.0 = "snd (make_reservation ''Dune'' 1 ''A1'' 10 cinema)"
      and ?w2.0 = "snd (update_reservation ''Dune'' ''A1'' ''B2'' 1 20
             (snd (make_reservation ''Dune'' 1 ''A1'' 10 cinema)))"
      and ?w3.0 = "snd (update_reservation ''Dune'' ''B2'' ''A1'' 1 30
          (snd (update_reservation ''Dune'' ''A1'' ''B2'' 1 20
             (snd (make_reservation ''Dune'' 1 ''A1'' 10 cinema)))))"]
  by (simp add: run_simps)

section \<open>Claims about the health check\<close>

text \<open>
  Claim C9. When both reads of the topology return, \<^verbatim>\<open>check_cluster_health\<close> returns
  \<^verbatim>\<open>True\<close> exactly when the number of rows of \<^verbatim>\<open>system.peers\<close> plus one is at least 2; the
  three application tables have no influence on the result.
\<close>

theorem check_cluster_health_total_nodes:
  "outcome 0 w = No_fault \<Longrightarrow> outcome 1 w = No_fault \<Longrightarrow>
     fst (check_cluster_health w) = Inr (length (system_peers w) + 1 \<ge> 2) \<and>
     fst (check_cluster_health (w\<lparr>movies := ms, users := us, reservations := rs\<rparr>)) =
       fst (check_cluster_health w)"
  by (simp add: check_cluster_health_def check_cluster_health_try_def execute_select_local_eq
      execute_select_peers_eq)

theorem check_cluster_health_total_nodes_witness:
  "outcome 0 cinema = No_fault \<and> outcome 1 cinema = No_fault \<and>
   fst (check_cluster_health cinema) = Inr True \<and>
   fst (check_cluster_health (cinema\<lparr>system_peers := []\<rparr>)) = Inr False"
  using check_cluster_health_total_nodes[of cinema]
    check_cluster_health_total_nodes[of "cinema\<lparr>system_peers := []\<rparr>"]
  by (simp add: cinema_def outcome_def)

text \<open>
  Claim C10. No exception leaves \<^verbatim>\<open>check_cluster_health\<close>: it always returns a boolean,
  and it returns \<^verbatim>\<open>False\<close> when the read of \<^verbatim>\<open>system.local\<close> or the read of
  \<^verbatim>\<open>system.peers\<close> raises.
\<close>

theorem check_cluster_health_never_raises:
  "(\<exists>healthy. fst (check_cluster_health w) = Inr healthy) \<and>
   (raises (outcome 0 w) \<or> outcome 0 w = No_fault \<and> raises (outcome 1 w) \<longrightarrow>
      fst (check_cluster_health w) = Inr False)"
  by (cases "outcome 0 w"; cases "outcome 1 w")
     (auto simp: check_cluster_health_def check_cluster_health_try_def
        execute_select_local_eq execute_select_peers_eq)

theorem check_cluster_health_never_raises_witness:
  "raises (outcome 0 (cinema\<lparr>faults := [Raises ''NoHostAvailable'' False]\<rparr>)) \<and>
   fst (check_cluster_health (cinema\<lparr>faults := [Raises ''NoHostAvailable'' False]\<rparr>)) = Inr False \<and>
   outcome 0 (cinema\<lparr>faults := [No_fault, Raises ''OperationTimedOut'' False]\<rparr>) = No_fault \<and>
   raises (outcome 1 (cinema\<lparr>faults := [No_fault, Raises ''OperationTimedOut'' False]\<rparr>)) \<and>
   fst (check_cluster_health (cinema\<lparr>faults := [No_fault, Raises ''OperationTimedOut'' False]\<rparr>))
     = Inr False"
  using check_cluster_health_never_raises[of "cinema\<lparr>faults := [Raises ''NoHostAvailable'' False]\<rparr>"]
    check_cluster_health_never_raises[of
      "cinema\<lparr>faults := [No_fault, Raises ''OperationTimedOut'' False]\<rparr>"]
  by (simp add: cinema_def outcome_def)


end
